(* ===== verification/Prelude.thy ===== *)
theory Prelude
  imports Main "HOL-Library.Word" "HOL-Library.Sublist"
begin

text \<open>
  Shared vocabulary of the development: the machine integer types of the target (a 32-bit
  little-endian Arm Cortex-M33), C's signed wrap-around and truncating division, byte order,
  chains of \<open>next\<close> pointers, and the interface of a state machine with an invariant that
  several components instantiate. Nothing here is specific to one source file.
\<close>

unbundle bit_operations_syntax

named_theorems run_simps \<open>definitions unfolded to run an operation of the model\<close>

section \<open>Machine integers\<close>

type_synonym u8 = "8 word"
type_synonym u16 = "16 word"
type_synonym u32 = "32 word"
type_synonym u64 = "64 word"

text \<open>
  \<open>c_int\<close> is the value a mathematical integer takes in a 32-bit two's complement \<open>int\<close>;
  \<open>in_int\<close> says that it needs no wrap-around.
\<close>

definition c_int :: "int \<Rightarrow> int" where
  "c_int x = signed_take_bit 31 x"

definition in_int :: "int \<Rightarrow> bool" where
  "in_int x \<longleftrightarrow> - (2 ^ 31) \<le> x \<and> x < 2 ^ 31"

lemma c_int_id: "in_int x \<Longrightarrow> c_int x = x"
  by (simp add: c_int_def in_int_def signed_take_bit_int_eq_self_iff)

lemma in_int_c_int [simp]: "in_int (c_int x)"
  using signed_take_bit_int_greater_eq_minus_exp [of 31 x] signed_take_bit_int_less_exp [of 31 x]
  by (simp add: c_int_def in_int_def)

lemma c_int_eq_iff: "c_int x = x \<longleftrightarrow> in_int x"
  by (metis c_int_id in_int_c_int)

text \<open>C's \<open>/\<close> on signed integers truncates towards zero.\<close>

definition c_div :: "int \<Rightarrow> int \<Rightarrow> int" where
  "c_div a b = sgn a * sgn b * (\<bar>a\<bar> div \<bar>b\<bar>)"

lemma c_div_nonneg: "0 \<le> a \<Longrightarrow> 0 < b \<Longrightarrow> c_div a b = a div b"
  by (cases "a = 0") (simp_all add: c_div_def)

lemma sint_of_small: "unat (w :: u32) < 2 ^ 31 \<Longrightarrow> sint w = int (unat w)"
  using less_imp_of_nat_less [of "unat w" "2 ^ 31", where 'a = int]
  by (simp add: sint_uint signed_take_bit_int_eq_self_iff order_trans [OF _ uint_ge_0])

lemma ucast_through_u32: "unat (x :: u64) < 2 ^ 32 \<Longrightarrow> ucast (ucast x :: u32) = x"
  by (simp add: word_unat_eq_iff unsigned_ucast_eq unsigned_take_bit_eq take_bit_nat_eq_self)

section \<open>Byte order\<close>

text \<open>
  A 32-bit word in memory is four bytes, least significant first. \<open>htobe32\<close> of
  \<^verbatim>\<open><sys/endian.h>\<close> converts between host and big-endian order, on this target by
  reversing the bytes; it is used in both directions.
\<close>

definition bytes_of_u32 :: "u32 \<Rightarrow> u8 list" where
  "bytes_of_u32 w = map (\<lambda>k. ucast (drop_bit (8 * k) w)) [0, 1, 2, 3]"

fun u32_of_bytes :: "u8 list \<Rightarrow> u32" where
  "u32_of_bytes [] = 0"
| "u32_of_bytes (b # bs) = ucast b OR push_bit 8 (u32_of_bytes bs)"

definition htobe32 :: "u32 \<Rightarrow> u32" where
  "htobe32 w = u32_of_bytes (rev (bytes_of_u32 w))"

lemma length_bytes_of_u32 [simp]: "length (bytes_of_u32 w) = 4"
  by (simp add: bytes_of_u32_def)

lemma bit_u32_of_bytes:
  "bit (u32_of_bytes bs) n \<longleftrightarrow> n < 32 \<and> n div 8 < length bs \<and> bit (bs ! (n div 8)) (n mod 8)"
proof (induction bs arbitrary: n)
  case Nil
  then show ?case by simp
next
  case (Cons b bs)
  show ?case
  proof (cases "n < 8")
    case True
    then show ?thesis by (auto simp: bit_simps)
  next
    case False
    then have "n div 8 = Suc ((n - 8) div 8)" and "n mod 8 = (n - 8) mod 8"
      by (simp_all add: le_div_geq le_mod_geq)
    moreover from False have "\<not> bit b n"
      using bit_imp_le_length [of b n] by auto
    ultimately show ?thesis using False Cons.IH [of "n - 8"]
      by (auto simp: bit_simps)
  qed
qed

lemma nth_bytes_of_u32: "k < 4 \<Longrightarrow> bytes_of_u32 w ! k = ucast (drop_bit (8 * k) w)"
  by (auto simp: bytes_of_u32_def less_Suc_eq numeral_eq_Suc)

lemma u32_of_bytes_of_u32 [simp]: "u32_of_bytes (bytes_of_u32 w) = w"
proof (rule bit_word_eqI)
  fix n assume "n < LENGTH(32)"
  then have "n div 8 < 4" by simp
  with \<open>n < LENGTH(32)\<close> show "bit (u32_of_bytes (bytes_of_u32 w)) n = bit w n"
    by (simp add: bit_u32_of_bytes nth_bytes_of_u32 bit_simps)
qed

lemma bytes_of_u32_of_bytes:
  assumes "length bs = 4"
  shows "bytes_of_u32 (u32_of_bytes bs) = bs"
proof (rule nth_equalityI)
  fix k assume "k < length (bytes_of_u32 (u32_of_bytes bs))"
  then have k: "k < 4" by simp
  show "bytes_of_u32 (u32_of_bytes bs) ! k = bs ! k"
  proof (rule bit_word_eqI)
    fix n assume "n < LENGTH(8)"
    with k assms show "bit (bytes_of_u32 (u32_of_bytes bs) ! k) n = bit (bs ! k) n"
      by (simp add: nth_bytes_of_u32 [OF k] bit_u32_of_bytes bit_simps)
  qed
qed (simp add: assms)

lemma bytes_of_htobe32: "bytes_of_u32 (htobe32 w) = rev (bytes_of_u32 w)"
  by (simp add: htobe32_def bytes_of_u32_of_bytes)

lemma htobe32_htobe32 [simp]: "htobe32 (htobe32 w) = w"
  by (simp add: htobe32_def bytes_of_u32_of_bytes)

section \<open>Rings of next pointers\<close>

text \<open>
  \<open>chain nx a xs z\<close>: from node \<open>a\<close>, the pointers \<open>nx\<close> lead through the nodes
  \<open>xs\<close> in order and then to \<open>z\<close>. A circular list with sentinel \<open>a\<close> is a chain
  from \<open>a\<close> back to \<open>a\<close>.
\<close>

fun chain :: "('a \<Rightarrow> 'a) \<Rightarrow> 'a \<Rightarrow> 'a list \<Rightarrow> 'a \<Rightarrow> bool" where
  "chain nx a [] z \<longleftrightarrow> nx a = z"
| "chain nx a (x # xs) z \<longleftrightarrow> nx a = x \<and> chain nx x xs z"

lemma chain_append [simp]:
  "chain nx a (xs @ y # ys) z \<longleftrightarrow> chain nx a xs y \<and> chain nx y ys z"
  by (induction xs arbitrary: a) auto

lemma chain_cong:
  "(\<And>b. b \<in> insert a (set xs) \<Longrightarrow> nx b = nx' b) \<Longrightarrow> chain nx a xs z = chain nx' a xs z"
  by (induction xs arbitrary: a) auto

lemma chain_upd_other [simp]:
  "b \<noteq> a \<Longrightarrow> b \<notin> set xs \<Longrightarrow> chain (nx(b := c)) a xs z = chain nx a xs z"
  by (rule chain_cong) auto

lemma chain_retarget:
  "chain nx a xs z \<Longrightarrow> distinct (a # xs) \<Longrightarrow> chain (nx(last (a # xs) := z')) a xs z'"
proof (induction xs arbitrary: a)
  case Nil
  then show ?case by simp
next
  case (Cons x xs)
  from Cons.prems have "chain (nx(last (x # xs) := z')) x xs z'" by (intro Cons.IH) auto
  moreover from Cons.prems have "last (x # xs) \<noteq> a" by (metis distinct.simps(2) last_in_set list.discI)
  moreover have "last (a # x # xs) = last (x # xs)" by simp
  ultimately show ?case using Cons.prems unfolding chain.simps
    by (metis chain.simps(2) fun_upd_other)
qed

lemma chain_last: "chain nx a xs z \<Longrightarrow> nx (last (a # xs)) = z"
  by (induction xs arbitrary: a) auto

section \<open>Machines with an invariant\<close>

text \<open>
  A component driven by a sequence of inputs: if one input keeps the invariant, so does every
  sequence of inputs. The interface is instantiated by the components whose state outlives one
  call.
\<close>

locale invariant_machine =
  fixes step :: "'e \<Rightarrow> 's \<Rightarrow> 's" and inv :: "'s \<Rightarrow> bool"
  assumes step_inv: "inv s \<Longrightarrow> inv (step e s)"
begin

lemma run_inv: "inv s \<Longrightarrow> inv (fold step es s)"
  by (induction es arbitrary: s) (auto intro: step_inv)

end

end
