(* ===== verification/Platform.thy ===== *)
theory Platform
  imports Prelude
begin

text \<open>
  The boundary between the application and the code it calls but does not contain: the MDEPX
  kernel and the Nordic modem library, both git submodules of the repository. A call across the
  boundary is an \<open>event\<close>; a run of the application is its \<open>history\<close>, the events in order,
  each with the integer result where the source looks at it. What the other side answers is the
  parameter \<open>platform\<close>: every answer may depend on the whole history so far, so a theorem
  that holds for every \<open>platform\<close> holds whatever the modem, the network and the kernel do.
  Constants of the modem library that the application only passes on are constructors.
  Message texts are the format strings of the source without the trailing newline and without
  the \<open>__func__\<close> prefix.
\<close>

section \<open>Calls\<close>

datatype arg = AInt int | AStr string

datatype nrf_family = NRF_AF_INET | NRF_AF_OTHER nat

datatype nrf_type = NRF_SOCK_STREAM | NRF_SOCK_DGRAM

datatype nrf_proto = NRF_IPPROTO_TCP | NRF_IPPROTO_UDP

datatype nrf_ai_flag = NRF_AI_PDNSERV

datatype nrf_poll_event = NRF_POLLIN | NRF_POLLOTHER nat

record nrf_timeval =
  tv_sec :: int
  tv_usec :: int

datatype nrf_sockopt =
    NRF_SO_BINDTOPDN int
  | NRF_SO_SNDTIMEO nrf_timeval
  | NRF_SO_RCVTIMEO nrf_timeval

record nrf_sockaddr_in =
  sin_family :: nrf_family
  sin_port :: u16
  s_addr :: u32

datatype sock_call =
    Nrf_socket nrf_family nrf_type nrf_proto
  | Nrf_setsockopt int nrf_sockopt
  | Nrf_getaddrinfo string string nrf_ai_flag
  | Nrf_bind int nrf_sockaddr_in
  | Nrf_connect int nrf_sockaddr_in
  | Nrf_send int "u8 list"
  | Nrf_recv int nat
  | Nrf_recvfrom int nat
  | Nrf_poll int nrf_poll_event u32
  | Nrf_close int

datatype at_call =
    At_printf string
  | At_scanf string
  | At_cmd_async string

datatype gnss_call =
    Gnss_event_handler_set
  | Gnss_power_mode_set int
  | Gnss_fix_retry_set int
  | Gnss_fix_interval_set int
  | Gnss_nmea_mask_set int
  | Gnss_start
  | Gnss_read_pvt
  | Gnss_read_nmea

datatype ipc_call =
    Ipc_configure_send nat u32
  | Ipc_configure_recv nat u32 bool
  | Ipc_inten_chanmask u32 bool
  | Ipc_inten u8 bool
  | Ipc_read_intpend
  | Ipc_clear_receive nat
  | Ipc_handler nat u32 u32

text \<open>
  The HTTP library drives the application through callbacks; \<open>http_op\<close> is one such callback.
\<close>

datatype http_op =
    Http_open string u16 int
  | Http_close
  | Http_read nat
  | Http_write "u8 list"
  | Http_alloc u32 u32
  | Http_sleep u32
  | Http_time
  | Http_log
  | Http_dump "u8 list" u32

datatype event =
    Printf string "arg list"
  | Usleep u32
  | Sock sock_call int
  | At at_call int
  | Gnss gnss_call int
  | Ipc ipc_call
  | Lookup string nat bool
  | Kernel string "arg list"
  | Random u64
  | Uptime u64
  | Panic string "arg list"

type_synonym history = "event list"

section \<open>Answers\<close>

text \<open>
  \<open>sock_ret P h c\<close> is what the call \<open>c\<close> returns after the history \<open>h\<close>;
  \<open>resolved\<close> is the address \<open>nrf_getaddrinfo\<close> stores on success, \<open>received\<close>
  the bytes a successful receive stores, \<open>scanned\<close> the variables \<open>nrf_modem_at_scanf\<close>
  stores (None when it stores nothing), \<open>gmtime_text\<close> what \<open>strftime\<close> writes for the
  result of \<open>gmtime_r\<close> (None when that is \<open>NULL\<close>), \<open>http_script\<close> the callbacks the
  HTTP library makes while it fetches a URL in a run that ends, \<open>http_socket\<close> what it holds as a descriptor
  before its first open, \<open>uninit_status\<close> what an uninitialised local variable holds, and so on.
\<close>

record platform =
  sock_ret :: "history \<Rightarrow> sock_call \<Rightarrow> int"
  resolved :: "history \<Rightarrow> nrf_sockaddr_in"
  received :: "history \<Rightarrow> u8 list"
  revents :: "history \<Rightarrow> nrf_poll_event list"
  at_ret :: "history \<Rightarrow> at_call \<Rightarrow> int"
  scanned :: "history \<Rightarrow> u32 option \<times> u32 option"
  gnss_ret :: "history \<Rightarrow> gnss_call \<Rightarrow> int"
  device_found :: "history \<Rightarrow> string \<Rightarrow> nat \<Rightarrow> bool"
  random_u64 :: "history \<Rightarrow> u64"
  uptime_us :: "history \<Rightarrow> u64"
  kernel_ret :: "history \<Rightarrow> string \<Rightarrow> int"
  nrf_htons :: "u16 \<Rightarrow> u16"
  gmtime_text :: "u32 \<Rightarrow> string option"
  http_script :: "history \<Rightarrow> string \<Rightarrow> http_op list"
  http_socket :: int
  uninit_status :: "history \<Rightarrow> u32"
  at_err_type :: "int \<Rightarrow> int"
  modem_version :: string

definition sock :: "platform \<Rightarrow> sock_call \<Rightarrow> history \<Rightarrow> int \<times> history" where
  [run_simps]: "sock P c h = (sock_ret P h c, h @ [Sock c (sock_ret P h c)])"

definition at_cmd :: "platform \<Rightarrow> at_call \<Rightarrow> history \<Rightarrow> int \<times> history" where
  [run_simps]: "at_cmd P c h = (at_ret P h c, h @ [At c (at_ret P h c)])"

definition gnss :: "platform \<Rightarrow> gnss_call \<Rightarrow> history \<Rightarrow> int \<times> history" where
  [run_simps]: "gnss P c h = (gnss_ret P h c, h @ [Gnss c (gnss_ret P h c)])"

definition mdx_device_lookup_by_name :: "platform \<Rightarrow> string \<Rightarrow> nat \<Rightarrow> history \<Rightarrow> bool \<times> history" where
  [run_simps]: "mdx_device_lookup_by_name P name unit h =
     (device_found P h name unit, h @ [Lookup name unit (device_found P h name unit)])"

definition printf :: "string \<Rightarrow> arg list \<Rightarrow> history \<Rightarrow> history" where
  [run_simps]: "printf fmt args h = h @ [Printf fmt args]"

definition mdx_uptime :: "platform \<Rightarrow> history \<Rightarrow> u64 \<times> history" where
  [run_simps]: "mdx_uptime P h = (uptime_us P h, h @ [Uptime (uptime_us P h)])"

definition mdx_usleep :: "u32 \<Rightarrow> history \<Rightarrow> history" where
  [run_simps]: "mdx_usleep us h = h @ [Usleep us]"

section \<open>Outcomes\<close>

text \<open>
  A function that may call \<open>panic\<close>, which does not return, has an \<open>outcome\<close>.
\<close>

datatype 'a outcome = Returned 'a | Panicked

definition panic :: "string \<Rightarrow> arg list \<Rightarrow> history \<Rightarrow> 'a outcome \<times> history" where
  [run_simps]: "panic msg args h = (Panicked, h @ [Panic msg args])"

section \<open>Reasoning about runs\<close>

text \<open>
  \<open>post m Q\<close>: the result of \<open>m\<close> satisfies \<open>Q\<close>. The rules step through the code of an
  operation; at a call across the boundary the result is any value, so the rules replace the
  platform's answer by a fresh variable and the proofs never depend on it.
\<close>

definition post :: "'a \<Rightarrow> ('a \<Rightarrow> bool) \<Rightarrow> bool" where
  "post m Q \<longleftrightarrow> Q m"

lemma postI: "Q m \<Longrightarrow> post m Q"
  by (simp add: post_def)

lemma postD: "post m Q \<Longrightarrow> m = r \<Longrightarrow> Q r"
  by (simp add: post_def)

lemma post_sock:
  "(\<And>r. post (F r (h @ [Sock c r])) Q) \<Longrightarrow> post (case sock P c h of (r, h') \<Rightarrow> F r h') Q"
  by (simp add: post_def sock_def)

lemma post_at_cmd:
  "(\<And>r. post (F r (h @ [At c r])) Q) \<Longrightarrow> post (case at_cmd P c h of (r, h') \<Rightarrow> F r h') Q"
  by (simp add: post_def at_cmd_def)

lemma post_gnss:
  "(\<And>r. post (F r (h @ [Gnss c r])) Q) \<Longrightarrow> post (case gnss P c h of (r, h') \<Rightarrow> F r h') Q"
  by (simp add: post_def gnss_def)

lemma post_lookup:
  "(\<And>r. post (F r (h @ [Lookup n u r])) Q) \<Longrightarrow>
     post (case mdx_device_lookup_by_name P n u h of (r, h') \<Rightarrow> F r h') Q"
  by (simp add: post_def mdx_device_lookup_by_name_def)

lemma post_uptime:
  "(\<And>r. post (F r (h @ [Uptime r])) Q) \<Longrightarrow> post (case mdx_uptime P h of (r, h') \<Rightarrow> F r h') Q"
  by (simp add: post_def mdx_uptime_def)

lemma post_if: "(b \<Longrightarrow> post x Q) \<Longrightarrow> (\<not> b \<Longrightarrow> post y Q) \<Longrightarrow> post (if b then x else y) Q"
  by simp

lemma post_let: "post (F x) Q \<Longrightarrow> post (Let x F) Q"
  by simp

lemma post_call2:
  "post m R \<Longrightarrow> (\<And>a b. R (a, b) \<Longrightarrow> post (F a b) Q) \<Longrightarrow> post (case m of (a, b) \<Rightarrow> F a b) Q"
  by (simp add: post_def split_beta)

lemma post_call3:
  "post m R \<Longrightarrow> (\<And>a b c. R (a, b, c) \<Longrightarrow> post (F a b c) Q) \<Longrightarrow>
     post (case m of (a, b, c) \<Rightarrow> F a b c) Q"
  by (simp add: post_def split_beta)

lemmas post_intros = post_sock post_at_cmd post_gnss post_lookup post_uptime post_if

text \<open>
  The socket calls of a history, with their results, and the descriptors a history leaves open.
\<close>

fun sock_events :: "history \<Rightarrow> (sock_call \<times> int) list" where
  "sock_events [] = []"
| "sock_events (Sock c r # h) = (c, r) # sock_events h"
| "sock_events (_ # h) = sock_events h"

lemma sock_events_append [simp]: "sock_events (h @ h') = sock_events h @ sock_events h'"
  by (induction h rule: sock_events.induct) auto

text \<open>What a call adds to the history it starts from.\<close>

definition new_events :: "history \<Rightarrow> history \<Rightarrow> event list" where
  "new_events h h' = drop (length h) h'"

lemma new_events_append [simp]: "new_events h (h @ evs) = evs" "new_events h h = []"
  by (simp_all add: new_events_def)

section \<open>Views of a run\<close>

text \<open>
  A view picks what is of interest from each event; \<open>grows view h h' vs\<close> says that \<open>h'\<close> extends
  \<open>h\<close> by events that show \<open>vs\<close>. The locale collects the views that do not show output, delays
  and clock reads; what an operation shows is proved once for all of them.
\<close>

definition shown :: "(event \<Rightarrow> 'v list) \<Rightarrow> history \<Rightarrow> 'v list" where
  "shown view h = concat (map view h)"

definition grows :: "(event \<Rightarrow> 'v list) \<Rightarrow> history \<Rightarrow> history \<Rightarrow> 'v list \<Rightarrow> bool" where
  "grows view h h' vs \<longleftrightarrow> (\<exists>evs. h' = h @ evs \<and> shown view evs = vs)"

lemma shown_simps [simp]:
  "shown view [] = []" "shown view (e # h) = view e @ shown view h"
  "shown view (h @ h') = shown view h @ shown view h'"
  by (simp_all add: shown_def)

lemma concat_nothing [simp]: "concat (map (\<lambda>x. []) xs) = []"
  by (induction xs) simp_all

lemma grows_refl: "grows view h h []"
  by (simp add: grows_def)

lemma grows_events: "grows view h (h @ evs) vs \<longleftrightarrow> shown view evs = vs"
  by (auto simp: grows_def)

lemma grows_append: "grows view h h' vs \<Longrightarrow> grows view h (h' @ evs) vs' \<longleftrightarrow> vs' = vs @ shown view evs"
  by (auto simp: grows_def)

lemma grows_trans: "grows view h h' vs \<Longrightarrow> grows view h' h'' vs' \<Longrightarrow> grows view h h'' (vs @ vs')"
  by (auto simp: grows_def)

lemma grows_step:
  "grows view h h' vs \<Longrightarrow> grows view h' h'' vs' \<Longrightarrow> vs'' = vs @ vs' \<Longrightarrow> grows view h h'' vs''"
  by (simp add: grows_trans)

lemma grows_new_events: "grows view h h' vs \<Longrightarrow> shown view (new_events h h') = vs"
  by (auto simp: grows_def)

locale event_view =
  fixes view :: "event \<Rightarrow> 'v list"
  assumes quiet [simp]: "view (Printf f args) = []" "view (Usleep us) = []" "view (Uptime v) = []"
    "view (Random w) = []" "view (Panic f args) = []"
begin

lemma printf_silent: "grows view h (printf f args h) []"
  by (simp add: grows_events printf_def)

lemma usleep_silent: "grows view h (mdx_usleep us h) []"
  by (simp add: grows_events mdx_usleep_def)

end

text \<open>
  A platform on which every call succeeds, for concrete runs: sockets get descriptor 3, sends
  and receives 48 bytes of zeros, the modem reports home registration in cell 5.
\<close>

definition all_ok :: platform where
  "all_ok = \<lparr>
     sock_ret = (\<lambda>h c. case c of Nrf_socket _ _ _ \<Rightarrow> 3 | Nrf_send _ bs \<Rightarrow> int (length bs)
        | Nrf_recv _ n \<Rightarrow> int n | Nrf_recvfrom _ n \<Rightarrow> int n | Nrf_poll _ _ _ \<Rightarrow> 1 | _ \<Rightarrow> 0),
     resolved = (\<lambda>h. \<lparr>sin_family = NRF_AF_INET, sin_port = 0, s_addr = 0x0100007f\<rparr>),
     received = (\<lambda>h. replicate 48 0), revents = (\<lambda>h. [NRF_POLLIN]),
     at_ret = (\<lambda>h c. 0), scanned = (\<lambda>h. (Some 1, Some 5)), gnss_ret = (\<lambda>h c. 0),
     device_found = (\<lambda>h name unit. True), random_u64 = (\<lambda>h. 0), uptime_us = (\<lambda>h. 0),
     kernel_ret = (\<lambda>h name. 0), nrf_htons = (\<lambda>w. push_bit 8 w OR drop_bit 8 w),
     gmtime_text = (\<lambda>t. Some ''01 January 1970, 12:00AM''),
     http_script = (\<lambda>h url. [Http_open ''xdma.org'' 80 0, Http_write [71, 69, 84], Http_read 16, Http_close]),
     http_socket = 0, uninit_status = (\<lambda>h. 0), at_err_type = (\<lambda>e. e), modem_version = ''2.6.0''\<rparr>"

end
