(* ===== verification/Modem_OS.thy ===== *)
theory Modem_OS
  imports Platform
begin

text \<open>
  The operating-system layer the modem library calls back into (\<^verbatim>\<open>src/src/nrf_modem.c\<close>):
  the list of sleeping threads with its notifications and timed waits, the fixed pools of
  semaphores and mutexes, memory and sleeping. The kernel services it is written on (the intrusive
  list, semaphores, mutexes) and the modem library's constants are the record \<open>os_api\<close>.
\<close>

section \<open>State and kernel services\<close>

type_synonym addr = nat

record ('h, 's, 'm) os_api =
  list_init :: "addr \<Rightarrow> 'h \<Rightarrow> 'h"
  list_append :: "addr \<Rightarrow> addr \<Rightarrow> 'h \<Rightarrow> 'h"
  list_remove :: "addr \<Rightarrow> 'h \<Rightarrow> 'h"
  list_empty :: "addr \<Rightarrow> 'h \<Rightarrow> bool"
  entry_next :: "'h \<Rightarrow> addr \<Rightarrow> addr"
  mdx_sem_init :: "u32 \<Rightarrow> 's"
  mdx_sem_post :: "'s \<Rightarrow> 's"
  mdx_sem_timedwait :: "int \<Rightarrow> 's \<Rightarrow> int \<times> 's"
  mdx_mutex_init :: "'m"
  mdx_mutex_lock :: "'m \<Rightarrow> 'm"
  mdx_mutex_timedlock :: "int \<Rightarrow> 'm \<Rightarrow> int \<times> 'm"
  mdx_mutex_unlock :: "'m \<Rightarrow> 'm"
  NRF_EAGAIN :: int
  NRF_ESHUTDOWN :: int
  NRF_EINVAL :: int
  NRF_MODEM_OS_NO_WAIT :: u32
  NRF_MODEM_OS_FOREVER :: u32
  NRF_MODEM_OS_SEM_MAX :: nat
  NRF_MODEM_OS_MTX_MAX :: nat

text \<open>
  A \<open>struct sleeping_thread\<close> is the pair \<open>td_sem\<close>, \<open>td_context\<close> at its address; its
  list node is its first member, so \<open>CONTAINER_OF\<close> is the identity on addresses. The
  static arrays of semaphores and mutexes are functions on indices.
\<close>

record ('h, 's, 'm) os =
  os_heap :: 'h
  td_sem :: "addr \<Rightarrow> 's"
  td_context :: "addr \<Rightarrow> u32"
  nrf_modem_os_semaphores :: "nat \<Rightarrow> 's"
  nrf_modem_os_mutexes :: "nat \<Rightarrow> 'm"
  sem_used :: u8
  mutex_used :: u8
  os_hist :: history

definition sleeping_thread_list :: addr where
  "sleeping_thread_list = 0"

definition os_event :: "event \<Rightarrow> ('h, 's, 'm) os \<Rightarrow> ('h, 's, 'm) os" where
  "os_event e s = s\<lparr>os_hist := os_hist s @ [e]\<rparr>"

definition critical :: "(('h, 's, 'm) os \<Rightarrow> ('h, 's, 'm) os) \<Rightarrow> ('h, 's, 'm) os \<Rightarrow> ('h, 's, 'm) os" where
  "critical f s = os_event (Kernel ''critical_exit'' []) (f (os_event (Kernel ''critical_enter'' []) s))"

section \<open>The list of sleeping threads\<close>

definition td_first :: "('h, 's, 'm) os_api \<Rightarrow> ('h, 's, 'm) os \<Rightarrow> addr option" where
  "td_first A s =
     (if list_empty A sleeping_thread_list (os_heap s) then None
      else Some (entry_next A (os_heap s) sleeping_thread_list))"

definition td_next :: "('h, 's, 'm) os_api \<Rightarrow> addr \<Rightarrow> ('h, 's, 'm) os \<Rightarrow> addr option" where
  "td_next A td0 s =
     (if entry_next A (os_heap s) td0 = sleeping_thread_list then None
      else Some (entry_next A (os_heap s) td0))"

text \<open>
  The loop \<open>for (td = td_first(); td != NULL; td = td_next(td))\<close> with body \<open>f\<close>. Nothing
  in the code bounds it: on a list that is not well formed it may never return, which is the
  value \<open>None\<close>.
\<close>

partial_function (option) for_each_td ::
    "('h, 's, 'm) os_api \<Rightarrow> (addr \<Rightarrow> ('h, 's, 'm) os \<Rightarrow> ('h, 's, 'm) os) \<Rightarrow> addr option \<Rightarrow>
     ('h, 's, 'm) os \<Rightarrow> ('h, 's, 'm) os option" where
  "for_each_td A f td s =
     (case td of
        None \<Rightarrow> Some s
      | Some t \<Rightarrow> (let s' = f t s in for_each_td A f (td_next A t s') s'))"

definition post_td :: "('h, 's, 'm) os_api \<Rightarrow> addr \<Rightarrow> ('h, 's, 'm) os \<Rightarrow> ('h, 's, 'm) os" where
  "post_td A td s = s\<lparr>td_sem := (td_sem s)(td := mdx_sem_post A (td_sem s td))\<rparr>"

definition nrf_modem_os_event_notify ::
    "('h, 's, 'm) os_api \<Rightarrow> u32 \<Rightarrow> ('h, 's, 'm) os \<Rightarrow> ('h, 's, 'm) os option" where
  "nrf_modem_os_event_notify A context s =
     for_each_td A (\<lambda>td s. if td_context s td = context \<or> context = 0 then post_td A td s else s)
       (td_first A s) s"

definition nrf_modem_os_shutdown ::
    "('h, 's, 'm) os_api \<Rightarrow> ('h, 's, 'm) os \<Rightarrow> ('h, 's, 'm) os option" where
  "nrf_modem_os_shutdown A s =
     (let s = os_event (Printf ''nrf_modem_os_shutdown'' []) s
      in for_each_td A (post_td A) (td_first A s) s)"

definition nrf_modem_os_init ::
    "('h, 's, 'm) os_api \<Rightarrow> platform \<Rightarrow> ('h, 's, 'm) os \<Rightarrow> unit outcome \<times> ('h, 's, 'm) os" where
  "nrf_modem_os_init A P s =
     (let s = s\<lparr>os_heap := list_init A sleeping_thread_list (os_heap s)\<rparr>;
          (nvic, h) = mdx_device_lookup_by_name P ''nvic'' 0 (os_hist s);
          s = s\<lparr>os_hist := h\<rparr>
      in if \<not> nvic then (Panicked, os_event (Panic ''could not find nvic device'' []) s)
         else (Returned (), os_event (Kernel ''mdx_intc_setup'' [AStr ''ID_IPC'', AStr ''ipc_intr'']) s))"

section \<open>Timed wait\<close>

text \<open>
  \<open>nrf_modem_os_timedwait\<close> blocks in the middle, and while it blocks, other threads and the
  interrupt handler run. The part before the block either returns at once or queues the thread;
  the part after it takes the thread off the list. \<open>initialized\<close> is the answer of
  \<open>nrf_modem_is_initialized\<close> at that point.
\<close>

datatype wait = Return int | Block int

definition timedwait_enter ::
    "('h, 's, 'm) os_api \<Rightarrow> bool \<Rightarrow> u32 \<Rightarrow> int \<Rightarrow> addr \<Rightarrow> ('h, 's, 'm) os \<Rightarrow> wait \<times> ('h, 's, 'm) os" where
  "timedwait_enter A initialized context val td s =
     (if \<not> initialized then (Return (- NRF_ESHUTDOWN A), s)
      else if val = 0 then (Return (- NRF_EAGAIN A), os_event (Kernel ''mdx_thread_yield'' []) s)
      else
        let tmout = (if val < 0 then 500000 else c_int (val * 1000));
            s = s\<lparr>td_sem := (td_sem s)(td := mdx_sem_init A 0), td_context := (td_context s)(td := context)\<rparr>;
            s = critical (\<lambda>s. s\<lparr>os_heap := list_append A sleeping_thread_list td (os_heap s)\<rparr>) s
        in (Block tmout, s))"

definition timedwait_leave ::
    "('h, 's, 'm) os_api \<Rightarrow> bool \<Rightarrow> int \<Rightarrow> int \<Rightarrow> addr \<Rightarrow> ('h, 's, 'm) os \<Rightarrow> int \<times> ('h, 's, 'm) os" where
  "timedwait_leave A initialized val tmout td s =
     (let (err, sem) = mdx_sem_timedwait A tmout (td_sem s td);
          s = s\<lparr>td_sem := (td_sem s)(td := sem)\<rparr>;
          s = critical (\<lambda>s. s\<lparr>os_heap := list_remove A td (os_heap s)\<rparr>) s
      in if \<not> initialized then (- NRF_ESHUTDOWN A, s)
         else if err = 0 then
           (if val < 0 then (0, os_event (Printf '';'' []) s) else (- NRF_EAGAIN A, s))
         else (0, s))"

text \<open>
  The whole call: \<open>others\<close> is everything that happens between the two halves.
\<close>

definition nrf_modem_os_timedwait ::
    "('h, 's, 'm) os_api \<Rightarrow> bool \<Rightarrow> (('h, 's, 'm) os \<Rightarrow> ('h, 's, 'm) os) \<Rightarrow> bool \<Rightarrow> u32 \<Rightarrow> int \<Rightarrow> addr \<Rightarrow>
     ('h, 's, 'm) os \<Rightarrow> int \<times> ('h, 's, 'm) os" where
  "nrf_modem_os_timedwait A init1 others init2 context val td s =
     (case timedwait_enter A init1 context val td s of
        (Return r, s) \<Rightarrow> (r, s)
      | (Block tmout, s) \<Rightarrow> timedwait_leave A init2 val tmout td (others s))"

section \<open>Semaphores and mutexes\<close>

text \<open>
  A handle is a \<open>void *\<close>: the address of an element of the static array, or any other
  pointer (\<open>NULL\<close> is \<open>Foreign 0\<close>). A failed \<open>KASSERT\<close> and an operation on a pointer
  outside the array do not return.
\<close>

datatype handle = Pool nat | Foreign u32

datatype os_error = Kassert string | Bad_pointer

definition nrf_modem_os_sem_init ::
    "('h, 's, 'm) os_api \<Rightarrow> handle \<Rightarrow> u32 \<Rightarrow> u32 \<Rightarrow> ('h, 's, 'm) os \<Rightarrow> os_error + handle \<times> ('h, 's, 'm) os" where
  "nrf_modem_os_sem_init A arg initial_count limit s =
     (case find (\<lambda>i. Pool i = arg) [0..<NRF_MODEM_OS_SEM_MAX A] of
        Some i \<Rightarrow>
          Inr (arg, s\<lparr>nrf_modem_os_semaphores :=
                 (nrf_modem_os_semaphores s)(i := mdx_sem_init A initial_count)\<rparr>)
      | None \<Rightarrow>
          if \<not> unat (sem_used s) < NRF_MODEM_OS_SEM_MAX A then Inl (Kassert ''Max semaphores reached.'')
          else let i = unat (sem_used s) in
            Inr (Pool i, s\<lparr>sem_used := sem_used s + 1,
                   nrf_modem_os_semaphores := (nrf_modem_os_semaphores s)(i := mdx_sem_init A initial_count)\<rparr>))"

definition nrf_modem_os_mutex_init ::
    "('h, 's, 'm) os_api \<Rightarrow> handle \<Rightarrow> ('h, 's, 'm) os \<Rightarrow> os_error + handle \<times> ('h, 's, 'm) os" where
  "nrf_modem_os_mutex_init A arg s =
     (case find (\<lambda>i. Pool i = arg) [0..<NRF_MODEM_OS_MTX_MAX A] of
        Some i \<Rightarrow>
          Inr (arg, s\<lparr>nrf_modem_os_mutexes := (nrf_modem_os_mutexes s)(i := mdx_mutex_init A)\<rparr>)
      | None \<Rightarrow>
          if \<not> unat (mutex_used s) < NRF_MODEM_OS_MTX_MAX A then Inl (Kassert ''Max mutex reached.'')
          else let i = unat (mutex_used s) in
            Inr (Pool i, s\<lparr>mutex_used := mutex_used s + 1,
                   nrf_modem_os_mutexes := (nrf_modem_os_mutexes s)(i := mdx_mutex_init A)\<rparr>))"

definition nrf_modem_os_sem_give ::
    "('h, 's, 'm) os_api \<Rightarrow> handle \<Rightarrow> ('h, 's, 'm) os \<Rightarrow> os_error + ('h, 's, 'm) os" where
  "nrf_modem_os_sem_give A arg s =
     (case arg of
        Pool i \<Rightarrow> Inr (s\<lparr>nrf_modem_os_semaphores :=
          (nrf_modem_os_semaphores s)(i := mdx_sem_post A (nrf_modem_os_semaphores s i))\<rparr>)
      | Foreign _ \<Rightarrow> Inl Bad_pointer)"

definition nrf_modem_os_sem_take ::
    "('h, 's, 'm) os_api \<Rightarrow> handle \<Rightarrow> int \<Rightarrow> ('h, 's, 'm) os \<Rightarrow> os_error + int \<times> ('h, 's, 'm) os" where
  "nrf_modem_os_sem_take A arg timeout s =
     (case arg of
        Pool i \<Rightarrow>
          let (err, sem) = mdx_sem_timedwait A (if timeout = -1 then 0 else c_int (timeout * 1000))
                (nrf_modem_os_semaphores s i);
              s = s\<lparr>nrf_modem_os_semaphores := (nrf_modem_os_semaphores s)(i := sem)\<rparr>
          in Inr (if err = 0 then - NRF_EAGAIN A else 0, s)
      | Foreign _ \<Rightarrow> Inl Bad_pointer)"

definition nrf_modem_os_mutex_lock ::
    "('h, 's, 'm) os_api \<Rightarrow> handle \<Rightarrow> int \<Rightarrow> ('h, 's, 'm) os \<Rightarrow> os_error + int \<times> ('h, 's, 'm) os" where
  "nrf_modem_os_mutex_lock A mtx timeout s =
     (case mtx of
        Pool i \<Rightarrow>
          let m = (if timeout = -1 then mdx_mutex_lock A (nrf_modem_os_mutexes s i)
                   else snd (mdx_mutex_timedlock A (c_int (timeout * 1000)) (nrf_modem_os_mutexes s i)))
          in Inr (0, s\<lparr>nrf_modem_os_mutexes := (nrf_modem_os_mutexes s)(i := m)\<rparr>)
      | Foreign _ \<Rightarrow> Inl Bad_pointer)"

definition nrf_modem_os_mutex_unlock ::
    "('h, 's, 'm) os_api \<Rightarrow> handle \<Rightarrow> ('h, 's, 'm) os \<Rightarrow> os_error + int \<times> ('h, 's, 'm) os" where
  "nrf_modem_os_mutex_unlock A mtx s =
     (case mtx of
        Pool i \<Rightarrow> Inr (0, s\<lparr>nrf_modem_os_mutexes :=
          (nrf_modem_os_mutexes s)(i := mdx_mutex_unlock A (nrf_modem_os_mutexes s i))\<rparr>)
      | Foreign _ \<Rightarrow> Inl Bad_pointer)"

section \<open>Sleeping and interrupt context\<close>

definition nrf_modem_os_sleep ::
    "('h, 's, 'm) os_api \<Rightarrow> u32 \<Rightarrow> ('h, 's, 'm) os \<Rightarrow> int \<times> ('h, 's, 'm) os" where
  "nrf_modem_os_sleep A timeout s =
     (if timeout = NRF_MODEM_OS_NO_WAIT A \<or> timeout = NRF_MODEM_OS_FOREVER A then (- NRF_EINVAL A, s)
      else (0, os_event (Usleep (timeout * 1000)) s))"

definition nrf_modem_os_is_in_isr :: "int \<Rightarrow> bool" where
  "nrf_modem_os_is_in_isr td_critnest \<longleftrightarrow> td_critnest > 0"

end
