(* ===== verification/Waiters.thy ===== *)
theory Waiters
  imports Modem_OS
begin

text \<open>
  The list of sleeping threads refines a queue of waiters. The kernel's intrusive list is used
  through its contract only (the locale \<open>entry_list\<close>: a representation predicate and what each
  operation does to the sequence of nodes); a doubly linked ring satisfies it. Under the
  contract, notification and shutdown terminate, post exactly the semaphores they should, once
  each, and interleaved waits, notifications and shutdowns keep the queue well formed.
\<close>

section \<open>The contract of the kernel's list\<close>

text \<open>
  \<open>rep l h xs\<close>: in heap \<open>h\<close>, the list with sentinel \<open>l\<close> holds the nodes \<open>xs\<close>.
\<close>

locale entry_list =
  fixes A :: "('h, 's, 'm) os_api" and rep :: "addr \<Rightarrow> 'h \<Rightarrow> addr list \<Rightarrow> bool"
  assumes rep_ring: "rep l h xs \<Longrightarrow> chain (entry_next A h) l xs l \<and> distinct (l # xs)"
    and rep_init: "rep l (list_init A l h) []"
    and rep_empty: "rep l h xs \<Longrightarrow> list_empty A l h \<longleftrightarrow> xs = []"
    and rep_append: "rep l h xs \<Longrightarrow> n \<notin> set (l # xs) \<Longrightarrow> rep l (list_append A l n h) (xs @ [n])"
    and rep_remove: "rep l h (xs @ n # ys) \<Longrightarrow> rep l (list_remove A n h) (xs @ ys)"
begin

lemma td_first_eq:
  "rep sleeping_thread_list (os_heap s) xs \<Longrightarrow>
     td_first A s = (case xs of [] \<Rightarrow> None | x # _ \<Rightarrow> Some x)"
  using rep_ring [of sleeping_thread_list "os_heap s" xs] rep_empty [of sleeping_thread_list "os_heap s" xs]
  by (auto simp: td_first_def split: list.splits)

lemma td_next_eq:
  "rep sleeping_thread_list (os_heap s) (xs @ x # ys) \<Longrightarrow>
     td_next A x s = (case ys of [] \<Rightarrow> None | y # _ \<Rightarrow> Some y)"
  using rep_ring [of sleeping_thread_list "os_heap s" "xs @ x # ys"]
  by (auto simp: td_next_def split: list.splits)

text \<open>
  The traversal loop is a fold over the nodes, in list order, for every body that leaves the list
  itself alone: it terminates and visits each node once.
\<close>

lemma for_each_td_fold_suffix:
  assumes body: "\<And>t s. os_heap (f t s) = os_heap s"
    and "rep sleeping_thread_list (os_heap s) (xs @ ys)"
  shows "for_each_td A f (case ys of [] \<Rightarrow> None | y # _ \<Rightarrow> Some y) s = Some (fold f ys s)"
  using assms(2)
proof (induction ys arbitrary: xs s)
  case Nil
  then show ?case by (simp add: for_each_td.simps)
next
  case (Cons y ys)
  have rep': "rep sleeping_thread_list (os_heap (f y s)) ((xs @ [y]) @ ys)"
    using Cons.prems by (simp add: body)
  have "td_next A y (f y s) = (case ys of [] \<Rightarrow> None | z # _ \<Rightarrow> Some z)"
    using rep' by (intro td_next_eq [of _ xs]) simp
  then show ?case using Cons.IH [OF rep'] by (simp add: for_each_td.simps [of A f "Some y"] Let_def)
qed

lemma for_each_td_fold:
  assumes "\<And>t s. os_heap (f t s) = os_heap s"
    and "rep sleeping_thread_list (os_heap s) xs"
  shows "for_each_td A f (td_first A s) s = Some (fold f xs s)"
  using for_each_td_fold_suffix [of f s "[]" xs] assms by (simp add: td_first_eq)

end

section \<open>The queue of waiters\<close>

text \<open>
  The abstract state: the waiting threads in the order they went to sleep, each with the context
  it waits on and the number of wake-ups posted to it so far.
\<close>

record waiter =
  w_td :: addr
  w_context :: u32
  w_posts :: nat

definition spec_enter :: "addr \<Rightarrow> u32 \<Rightarrow> waiter list \<Rightarrow> waiter list" where
  "spec_enter td context ws = ws @ [\<lparr>w_td = td, w_context = context, w_posts = 0\<rparr>]"

definition spec_notify :: "u32 \<Rightarrow> waiter list \<Rightarrow> waiter list" where
  "spec_notify context ws =
     map (\<lambda>w. if w_context w = context \<or> context = 0 then w\<lparr>w_posts := Suc (w_posts w)\<rparr> else w) ws"

definition spec_shutdown :: "waiter list \<Rightarrow> waiter list" where
  "spec_shutdown ws = map (\<lambda>w. w\<lparr>w_posts := Suc (w_posts w)\<rparr>) ws"

definition spec_leave :: "addr \<Rightarrow> waiter list \<Rightarrow> waiter list" where
  "spec_leave td ws = filter (\<lambda>w. w_td w \<noteq> td) ws"

text \<open>
  \<open>os_rel\<close> relates the two: the list holds exactly the waiters, in order, and every waiter's
  semaphore is the fresh one with as many posts as the queue counts.
\<close>

definition os_rel ::
    "('h, 's, 'm) os_api \<Rightarrow> (addr \<Rightarrow> 'h \<Rightarrow> addr list \<Rightarrow> bool) \<Rightarrow> ('h, 's, 'm) os \<Rightarrow> waiter list \<Rightarrow> bool" where
  "os_rel A rep s ws \<longleftrightarrow>
     rep sleeping_thread_list (os_heap s) (map w_td ws) \<and>
     (\<forall>w \<in> set ws. td_context s (w_td w) = w_context w \<and>
        td_sem s (w_td w) = (mdx_sem_post A ^^ w_posts w) (mdx_sem_init A 0))"

lemma fold_post_td:
  assumes "distinct xs"
    and f: "\<And>t s. f t s = (if P (td_context s t) then post_td A t s else s)"
  shows "fold f xs s = s\<lparr>td_sem := (\<lambda>t. if t \<in> set xs \<and> P (td_context s t)
           then mdx_sem_post A (td_sem s t) else td_sem s t)\<rparr>"
  using assms(1)
proof (induction xs arbitrary: s)
  case Nil
  then show ?case by simp
next
  case (Cons x xs)
  then show ?case
    by (auto simp: f post_td_def intro!: arg_cong [where f = "\<lambda>g. td_sem_update (\<lambda>_. g) s"] ext)
qed

lemma os_rel_event [simp]: "os_rel A rep (os_event e s) ws = os_rel A rep s ws"
  by (simp add: os_rel_def os_event_def)

lemma os_event_sel [simp]:
  "os_heap (os_event e s) = os_heap s" "td_sem (os_event e s) = td_sem s"
  "td_context (os_event e s) = td_context s" "sem_used (os_event e s) = sem_used s"
  "mutex_used (os_event e s) = mutex_used s"
  by (simp_all add: os_event_def)

lemma timedwait_leave_frame:
  "os_heap (snd (timedwait_leave A initialized val tmout td s)) = list_remove A td (os_heap s)"
  "td_context (snd (timedwait_leave A initialized val tmout td s)) = td_context s"
  "t \<noteq> td \<Longrightarrow> td_sem (snd (timedwait_leave A initialized val tmout td s)) t = td_sem s t"
  by (simp_all add: timedwait_leave_def critical_def Let_def split_beta)

lemma map_w_td_posts [simp]:
  "map (w_td \<circ> (\<lambda>w. if Q w then w\<lparr>w_posts := n w\<rparr> else w)) ws = map w_td ws"
  "map (w_td \<circ> (\<lambda>w. w\<lparr>w_posts := n w\<rparr>)) ws = map w_td ws"
  by (auto simp: map_eq_conv)

section \<open>Simulation\<close>

context entry_list
begin

lemma os_rel_distinct: "os_rel A rep s ws \<Longrightarrow> distinct (map w_td ws)"
  using rep_ring by (fastforce simp: os_rel_def)

lemma foreach_post_sim:
  assumes rel: "os_rel A rep s ws"
    and f: "\<And>t s. f t s = (if P (td_context s t) then post_td A t s else s)"
  shows "\<exists>s'. for_each_td A f (td_first A s) s = Some s' \<and> os_hist s' = os_hist s \<and>
    os_rel A rep s' (map (\<lambda>w. if P (w_context w) then w\<lparr>w_posts := Suc (w_posts w)\<rparr> else w) ws)"
proof -
  let ?s' = "s\<lparr>td_sem := (\<lambda>t. if t \<in> set (map w_td ws) \<and> P (td_context s t)
           then mdx_sem_post A (td_sem s t) else td_sem s t)\<rparr>"
  have "for_each_td A f (td_first A s) s = Some (fold f (map w_td ws) s)"
    using rel by (intro for_each_td_fold) (auto simp: f post_td_def os_rel_def)
  also have "fold f (map w_td ws) s = ?s'"
    by (rule fold_post_td [OF os_rel_distinct [OF rel]]) (rule f)
  finally have "for_each_td A f (td_first A s) s = Some ?s'" .
  moreover have "os_rel A rep ?s' (map (\<lambda>w. if P (w_context w) then w\<lparr>w_posts := Suc (w_posts w)\<rparr> else w) ws)"
    using rel by (auto simp: os_rel_def)
  ultimately show ?thesis by auto
qed

lemma notify_exact:
  assumes rel: "os_rel A rep s ws"
  shows "nrf_modem_os_event_notify A context s =
    Some (s\<lparr>td_sem := (\<lambda>t. if t \<in> w_td ` set ws \<and> (td_context s t = context \<or> context = 0)
            then mdx_sem_post A (td_sem s t) else td_sem s t)\<rparr>)"
proof -
  let ?f = "\<lambda>td s. if td_context s td = context \<or> context = 0 then post_td A td s else s"
  have "for_each_td A ?f (td_first A s) s = Some (fold ?f (map w_td ws) s)"
    using rel by (intro for_each_td_fold) (auto simp: post_td_def os_rel_def)
  then show ?thesis
    using fold_post_td [OF os_rel_distinct [OF rel], of ?f "\<lambda>c. c = context \<or> context = 0" A s]
    by (simp add: nrf_modem_os_event_notify_def)
qed

lemma notify_sim:
  assumes "os_rel A rep s ws"
  shows "\<exists>s'. nrf_modem_os_event_notify A context s = Some s' \<and> os_rel A rep s' (spec_notify context ws)"
  using foreach_post_sim [OF assms, where P = "\<lambda>c. c = context \<or> context = 0", OF refl]
  by (auto simp: nrf_modem_os_event_notify_def spec_notify_def)

lemma shutdown_sim:
  assumes "os_rel A rep s ws"
  shows "\<exists>s'. nrf_modem_os_shutdown A s = Some s' \<and> os_rel A rep s' (spec_shutdown ws)"
  using foreach_post_sim [of "os_event (Printf ''nrf_modem_os_shutdown'' []) s" ws "post_td A" "\<lambda>_. True"] assms
  by (auto simp: nrf_modem_os_shutdown_def spec_shutdown_def Let_def)

lemma enter_sim:
  assumes rel: "os_rel A rep s ws"
    and fresh: "td \<noteq> sleeping_thread_list" "td \<notin> w_td ` set ws"
    and enter: "timedwait_enter A True context val td s = (Block tmout, s')"
  shows "os_rel A rep s' (spec_enter td context ws)"
proof -
  have "rep sleeping_thread_list (list_append A sleeping_thread_list td (os_heap s)) (map w_td ws @ [td])"
    using rel fresh by (intro rep_append) (auto simp: os_rel_def)
  with rel fresh enter show ?thesis
    by (auto simp: timedwait_enter_def os_rel_def spec_enter_def critical_def Let_def split: if_splits)
qed

lemma leave_sim:
  assumes rel: "os_rel A rep s ws" and w: "w \<in> set ws"
  shows "os_rel A rep (snd (timedwait_leave A initialized val tmout (w_td w) s)) (spec_leave (w_td w) ws)"
proof -
  from w obtain us vs where ws: "ws = us @ w # vs" by (auto simp: in_set_conv_decomp)
  from os_rel_distinct [OF rel] have d: "w_td w \<notin> w_td ` set us" "w_td w \<notin> w_td ` set vs"
    by (auto simp: ws)
  then have leave: "spec_leave (w_td w) ws = us @ vs"
    by (auto simp: spec_leave_def ws intro!: arg_cong2 [where f = "(@)"] filter_True) (metis image_eqI)+
  have "rep sleeping_thread_list (list_remove A (w_td w) (os_heap s)) (map w_td us @ map w_td vs)"
    using rel by (intro rep_remove) (simp add: os_rel_def ws)
  moreover have "\<forall>w' \<in> set (us @ vs). w_td w' \<noteq> w_td w"
    using d by (metis UnE image_eqI set_append)
  ultimately show ?thesis using rel
    unfolding leave os_rel_def timedwait_leave_frame by (simp add: timedwait_leave_frame ws)
qed

end

section \<open>Interleaved operation\<close>

text \<open>
  The system as a whole: threads enter and leave timed waits and the modem library notifies or
  shuts down, in any order. The second component of the state is the queue of waiters, carried
  along as a specification of what the first one should hold. A thread's \<open>struct
  sleeping_thread\<close> is on its own stack, so a thread that enters is at a fresh address.
\<close>

inductive os_step ::
    "('h, 's, 'm) os_api \<Rightarrow> ('h, 's, 'm) os \<times> waiter list \<Rightarrow> ('h, 's, 'm) os \<times> waiter list \<Rightarrow> bool"
  for A where
  enter: "td \<noteq> sleeping_thread_list \<Longrightarrow> td \<notin> w_td ` set ws \<Longrightarrow>
     timedwait_enter A True context val td s = (Block tmout, s') \<Longrightarrow>
     os_step A (s, ws) (s', spec_enter td context ws)"
| refuse: "timedwait_enter A initialized context val td s = (Return r, s') \<Longrightarrow>
     os_step A (s, ws) (s', ws)"
| notify: "nrf_modem_os_event_notify A context s = Some s' \<Longrightarrow>
     os_step A (s, ws) (s', spec_notify context ws)"
| shutdown: "nrf_modem_os_shutdown A s = Some s' \<Longrightarrow>
     os_step A (s, ws) (s', spec_shutdown ws)"
| leave: "w \<in> set ws \<Longrightarrow>
     os_step A (s, ws) (snd (timedwait_leave A initialized val tmout (w_td w) s), spec_leave (w_td w) ws)"

context entry_list
begin

lemma init_rel: "nrf_modem_os_init A P s0 = (Returned (), s) \<Longrightarrow> os_rel A rep s []"
  by (auto simp: nrf_modem_os_init_def os_rel_def Let_def split_beta rep_init split: if_splits)

lemma refuse_rel:
  "os_rel A rep s ws \<Longrightarrow> timedwait_enter A initialized context val td s = (Return r, s') \<Longrightarrow>
     os_rel A rep s' ws"
  by (auto simp: timedwait_enter_def Let_def split: if_splits)

lemma os_step_rel: "os_step A c c' \<Longrightarrow> os_rel A rep (fst c) (snd c) \<Longrightarrow> os_rel A rep (fst c') (snd c')"
proof (induction rule: os_step.induct)
  case (notify ctxt s s' ws)
  then show ?case using notify_sim [of s ws ctxt] by auto
next
  case (shutdown s s' ws)
  then show ?case using shutdown_sim [of s ws] by auto
qed (auto intro: enter_sim refuse_rel leave_sim)

end

end
