(* ===== verification/Ring.thy ===== *)
theory Ring
  imports Waiters
begin

text \<open>
  A doubly linked ring with a sentinel satisfies the contract of the kernel's list, so the
  hypotheses of the theorems about sleeping threads can be met. It is the textbook layout of an
  intrusive list; the theorems themselves rest on the contract only.
\<close>

record ring =
  nx :: "addr \<Rightarrow> addr"
  pv :: "addr \<Rightarrow> addr"

definition ring_init :: "addr \<Rightarrow> ring \<Rightarrow> ring" where
  "ring_init l r = r\<lparr>nx := (nx r)(l := l), pv := (pv r)(l := l)\<rparr>"

definition ring_append :: "addr \<Rightarrow> addr \<Rightarrow> ring \<Rightarrow> ring" where
  "ring_append l n r =
     r\<lparr>nx := (nx r)(pv r l := n, n := l), pv := (pv r)(n := pv r l, l := n)\<rparr>"

definition ring_remove :: "addr \<Rightarrow> ring \<Rightarrow> ring" where
  "ring_remove n r =
     r\<lparr>nx := (nx r)(pv r n := nx r n), pv := (pv r)(nx r n := pv r n)\<rparr>"

definition ring_rep :: "addr \<Rightarrow> ring \<Rightarrow> addr list \<Rightarrow> bool" where
  "ring_rep l r xs \<longleftrightarrow> chain (nx r) l xs l \<and> chain (pv r) l (rev xs) l \<and> distinct (l # xs)"

lemma chain_first: "chain f a xs z \<Longrightarrow> f a = hd (xs @ [z])"
  by (cases xs) auto

lemma hd_rev_last: "hd (rev xs @ [l]) = last (l # xs)"
  by (cases xs rule: rev_cases) auto

lemma ring_prev: "ring_rep l r (xs @ n # ys) \<Longrightarrow> pv r n = last (l # xs)"
  using chain_first [of "pv r" n "rev xs" l] by (auto simp: ring_rep_def hd_rev_last)

lemma ring_prev_sentinel: "ring_rep l r xs \<Longrightarrow> pv r l = last (l # xs)"
  using chain_first [of "pv r" l "rev xs" l] by (auto simp: ring_rep_def hd_rev_last)

lemma chain_unlink:
  assumes "chain f l (xs @ n # ys) l" and "distinct (l # xs @ n # ys)"
  shows "chain (f(last (l # xs) := f n)) l (xs @ ys) l"
proof -
  from assms have xs: "chain (f(last (l # xs) := f n)) l xs (f n)"
    by (intro chain_retarget [where z = n]) auto
  show ?thesis
  proof (cases ys)
    case Nil
    with xs assms show ?thesis by simp
  next
    case (Cons y ys')
    have "last (l # xs) \<in> set (l # xs)" by (rule last_in_set) simp
    with assms Cons have "chain (f(last (l # xs) := f n)) y ys' l"
      by (subst chain_upd_other) auto
    with xs assms Cons show ?thesis by simp
  qed
qed

lemma ring_rep_append:
  assumes rep: "ring_rep l r xs" and n: "n \<notin> set (l # xs)"
  shows "ring_rep l (ring_append l n r) (xs @ [n])"
proof -
  have p: "pv r l = last (l # xs)" by (rule ring_prev_sentinel [OF rep])
  have "chain ((nx r)(pv r l := n)) l xs n"
    unfolding p using rep by (intro chain_retarget [where z = l]) (auto simp: ring_rep_def)
  then have fwd: "chain (nx (ring_append l n r)) l (xs @ [n]) l"
    using n by (simp add: ring_append_def)
  have "chain (pv (ring_append l n r)) n (rev xs) l"
    using rep n by (cases "rev xs") (auto simp: ring_append_def ring_rep_def)
  moreover have "pv (ring_append l n r) l = n"
    using n by (simp add: ring_append_def)
  ultimately have "chain (pv (ring_append l n r)) l (rev (xs @ [n])) l" by simp
  with fwd show ?thesis using rep n by (auto simp: ring_rep_def)
qed

lemma ring_rep_remove:
  assumes rep: "ring_rep l r (xs @ n # ys)"
  shows "ring_rep l (ring_remove n r) (xs @ ys)"
proof -
  have p: "pv r n = last (l # xs)" by (rule ring_prev [OF rep])
  have q: "nx r n = last (l # rev ys)"
    using rep chain_first [of "nx r" n ys l] hd_rev_last [of "rev ys" l] by (auto simp: ring_rep_def)
  have "chain ((nx r)(pv r n := nx r n)) l (xs @ ys) l"
    unfolding p using rep by (intro chain_unlink) (auto simp: ring_rep_def)
  moreover have "chain ((pv r)(nx r n := pv r n)) l (rev ys @ rev xs) l"
    unfolding q using rep by (intro chain_unlink) (auto simp: ring_rep_def)
  ultimately show ?thesis using rep
    by (simp add: ring_rep_def ring_remove_def)
qed

text \<open>
  Kernel services for concrete runs: the ring; semaphores that hold the number of their tokens, or -1
  when a caller waits without limit; mutexes that are free (0), taken (1), or taken with a caller
  waiting without limit (2); a kernel timeout of 0 has no limit; and small distinct constants.
\<close>

definition ring_api :: "(ring, int, int) os_api" where
  "ring_api = \<lparr>list_init = ring_init, list_append = ring_append, list_remove = ring_remove,
     list_empty = (\<lambda>l r. nx r l = l), entry_next = nx,
     mdx_sem_init = uint, mdx_sem_post = (\<lambda>n. max 0 n + 1),
     mdx_sem_timedwait = (\<lambda>t n. if 0 < n then (1, n - 1) else if t = 0 then (0, -1) else (0, 0)),
     mdx_mutex_init = 0, mdx_mutex_lock = (\<lambda>m. if 0 < m then 2 else 1),
     mdx_mutex_timedlock = (\<lambda>t m. if 0 < m then (0, if t = 0 then 2 else 1) else (1, 1)), mdx_mutex_unlock = (\<lambda>_. 0),
     NRF_EAGAIN = 11, NRF_ESHUTDOWN = 110, NRF_EINVAL = 22,
     NRF_MODEM_OS_NO_WAIT = 0, NRF_MODEM_OS_FOREVER = - 1,
     NRF_MODEM_OS_SEM_MAX = 4, NRF_MODEM_OS_MTX_MAX = 3\<rparr>"

lemma ring_api_sel [simp]:
  "list_init ring_api = ring_init" "list_append ring_api = ring_append"
  "list_remove ring_api = ring_remove" "list_empty ring_api = (\<lambda>l r. nx r l = l)"
  "entry_next ring_api = nx" "mdx_sem_init ring_api = uint" "mdx_sem_post ring_api = (\<lambda>n. max 0 n + 1)"
  "mdx_sem_timedwait ring_api = (\<lambda>t n. if 0 < n then (1, n - 1) else if t = 0 then (0, -1) else (0, 0))"
  "NRF_EAGAIN ring_api = 11" "NRF_ESHUTDOWN ring_api = 110" "NRF_EINVAL ring_api = 22"
  "NRF_MODEM_OS_NO_WAIT ring_api = 0" "NRF_MODEM_OS_FOREVER ring_api = - 1"
  "NRF_MODEM_OS_SEM_MAX ring_api = 4" "NRF_MODEM_OS_MTX_MAX ring_api = 3"
  "mdx_mutex_init ring_api = 0" "mdx_mutex_lock ring_api = (\<lambda>m. if 0 < m then 2 else 1)"
  "mdx_mutex_timedlock ring_api = (\<lambda>t m. if 0 < m then (0, if t = 0 then 2 else 1) else (1, 1))"
  "mdx_mutex_unlock ring_api = (\<lambda>_. 0)"
  by (simp_all add: ring_api_def)

interpretation ring_list: entry_list ring_api ring_rep
proof unfold_locales
  fix l r xs
  show "ring_rep l r xs \<Longrightarrow> chain (entry_next ring_api r) l xs l \<and> distinct (l # xs)"
    by (simp add: ring_rep_def)
  show "ring_rep l (list_init ring_api l r) []"
    by (simp add: ring_rep_def ring_init_def)
  show "ring_rep l r xs \<Longrightarrow> list_empty ring_api l r \<longleftrightarrow> xs = []"
    by (cases xs) (auto simp: ring_rep_def)
  show "n \<notin> set (l # xs) \<Longrightarrow> ring_rep l (list_append ring_api l n r) (xs @ [n])"
    if "ring_rep l r xs" for n
    using that unfolding ring_api_sel by (rule ring_rep_append)
  show "ring_rep l (list_remove ring_api n r) (xs @ ys)" if "ring_rep l r (xs @ n # ys)" for n ys
    using that by (simp add: ring_rep_remove)
qed

end
