(* ===== verification/Pools.thy ===== *)
theory Pools
  imports Ring
begin

text \<open>
  The semaphore and mutex pools of \<^verbatim>\<open>src/src/nrf_modem.c\<close> are two instances of one contract,
  the locale \<open>handle_pool\<close>: initialising a handle that already names an element of the static
  array reinitialises that element, any other pointer gets the next unused element, and a full
  pool fails the assertion.
\<close>

fun init_all ::
    "('c \<Rightarrow> handle \<Rightarrow> 'st \<Rightarrow> os_error + handle \<times> 'st) \<Rightarrow> ('c \<times> handle) list \<Rightarrow> 'st \<Rightarrow>
     os_error + handle list \<times> 'st" where
  "init_all f [] s = Inr ([], s)"
| "init_all f ((c, p) # rs) s =
     (case f c p s of
        Inl e \<Rightarrow> Inl e
      | Inr (h, s') \<Rightarrow>
          (case init_all f rs s' of Inl e \<Rightarrow> Inl e | Inr (hs, s'') \<Rightarrow> Inr (h # hs, s'')))"

definition outside :: "nat \<Rightarrow> handle \<Rightarrow> bool" where
  "outside cap p \<longleftrightarrow> (\<forall>i<cap. p \<noteq> Pool i)"

locale handle_pool =
  fixes init :: "'c \<Rightarrow> handle \<Rightarrow> 'st \<Rightarrow> os_error + handle \<times> 'st"
    and used :: "'st \<Rightarrow> u8" and cell :: "'st \<Rightarrow> nat \<Rightarrow> 'v" and new :: "'c \<Rightarrow> 'v" and cap :: nat
    and full_error :: os_error
  assumes reinit: "i < cap \<Longrightarrow> \<exists>s'. init c (Pool i) s = Inr (Pool i, s') \<and>
        used s' = used s \<and> cell s' = (cell s)(i := new c)"
    and alloc: "outside cap p \<Longrightarrow> unat (used s) < cap \<Longrightarrow>
        \<exists>s'. init c p s = Inr (Pool (unat (used s)), s') \<and>
          used s' = used s + 1 \<and> cell s' = (cell s)(unat (used s) := new c)"
    and full: "outside cap p \<Longrightarrow> cap \<le> unat (used s) \<Longrightarrow> init c p s = Inl full_error"
begin

lemma unat_used_Suc: "unat (u :: u8) < cap \<Longrightarrow> cap \<le> 255 \<Longrightarrow> unat (u + 1) = Suc (unat u)"
  by (simp add: unat_word_ariths)

lemma alloc_all:
  assumes "\<forall>(c, p) \<in> set rs. outside cap p" and "cap \<le> 255" and "unat (used s) + length rs \<le> cap"
  shows "\<exists>s'. init_all init rs s = Inr (map Pool [unat (used s)..<unat (used s) + length rs], s') \<and>
      unat (used s') = unat (used s) + length rs \<and>
      (\<forall>k<length rs. cell s' (unat (used s) + k) = new (fst (rs ! k))) \<and>
      (\<forall>i. i < unat (used s) \<longrightarrow> cell s' i = cell s i)"
  using assms
proof (induction rs arbitrary: s)
  case Nil
  then show ?case by auto
next
  case (Cons r rs)
  obtain c p where r: "r = (c, p)" by (cases r)
  from Cons.prems r have p: "outside cap p" and u: "unat (used s) < cap" by auto
  from alloc [OF p u] obtain s1 where s1: "init c p s = Inr (Pool (unat (used s)), s1)"
    "used s1 = used s + 1" "cell s1 = (cell s)(unat (used s) := new c)" by blast
  have u1: "unat (used s1) = Suc (unat (used s))"
    using s1(2) unat_used_Suc [OF u Cons.prems(2)] by simp
  from Cons.IH [of s1] Cons.prems u1 obtain s2 where s2:
    "init_all init rs s1 = Inr (map Pool [Suc (unat (used s))..<Suc (unat (used s)) + length rs], s2)"
    "unat (used s2) = Suc (unat (used s)) + length rs"
    "\<forall>k<length rs. cell s2 (Suc (unat (used s)) + k) = new (fst (rs ! k))"
    "\<forall>i. i < Suc (unat (used s)) \<longrightarrow> cell s2 i = cell s1 i"
    by auto
  have "cell s2 (unat (used s) + k) = new (fst ((r # rs) ! k))" if "k < length (r # rs)" for k
    using that s2(3,4) s1(3) r by (cases k) auto
  moreover have "cell s2 i = cell s i" if "i < unat (used s)" for i
    using that s2(4) s1(3) by auto
  moreover have "init_all init (r # rs) s =
      Inr (map Pool [unat (used s)..<unat (used s) + length (r # rs)], s2)"
    using s1(1) s2(1) r by (simp add: upt_conv_Cons del: upt_Suc)
  ultimately show ?case using s2(2) by auto
qed

lemma exhausted:
  assumes "\<forall>(c, p) \<in> set rs. outside cap p" and "cap \<le> 255" and "unat (used s) \<le> cap"
    and "cap < unat (used s) + length rs"
  shows "init_all init rs s = Inl full_error"
  using assms
proof (induction rs arbitrary: s)
  case Nil
  then show ?case by simp
next
  case (Cons r rs)
  obtain c p where r: "r = (c, p)" by (cases r)
  with Cons.prems have p: "outside cap p" by auto
  show ?case
  proof (cases "unat (used s) < cap")
    case True
    with alloc [OF p True] obtain s1 where s1: "init c p s = Inr (Pool (unat (used s)), s1)"
      "used s1 = used s + 1" by blast
    have "unat (used s1) = Suc (unat (used s))"
      using s1(2) unat_used_Suc [OF True Cons.prems(2)] by simp
    with Cons.IH [of s1] Cons.prems True have "init_all init rs s1 = Inl full_error" by auto
    with r s1 show ?thesis by simp
  next
    case False
    with full [OF p] r show ?thesis by simp
  qed
qed

end

lemma find_index: "i < n \<Longrightarrow> find (\<lambda>j. j = i) [0..<n] = Some i"
  unfolding find_Some_iff by (rule exI [of _ i]) simp

lemma find_Pool_None: "outside n p \<Longrightarrow> find (\<lambda>j. Pool j = p) [0..<n] = None"
  by (auto simp: find_None_iff outside_def)

interpretation sem_pool: handle_pool
  "\<lambda>(count, limit) p s. nrf_modem_os_sem_init A p count limit s" sem_used nrf_modem_os_semaphores
  "\<lambda>(count, limit). mdx_sem_init A count" "NRF_MODEM_OS_SEM_MAX A" "Kassert ''Max semaphores reached.''"
  for A :: "('h, 's, 'm) os_api"
  by unfold_locales
    (auto simp: nrf_modem_os_sem_init_def find_index find_Pool_None Let_def split: prod.splits)

interpretation mutex_pool: handle_pool
  "\<lambda>_ :: unit. nrf_modem_os_mutex_init A" mutex_used nrf_modem_os_mutexes
  "\<lambda>_. mdx_mutex_init A" "NRF_MODEM_OS_MTX_MAX A" "Kassert ''Max mutex reached.''"
  for A :: "('h, 's, 'm) os_api"
  by unfold_locales
    (auto simp: nrf_modem_os_mutex_init_def find_index find_Pool_None Let_def)

end
