(* ===== verification/Layer.thy ===== *)
theory Layer
  imports Pools
begin

text \<open>
  The modem operating-system layer of \<^verbatim>\<open>src/src/nrf_modem.c\<close> as one system: timed waits, notifications
  and shutdowns, and the semaphore and mutex functions, called by any number of threads in any order.
  A ledger is carried along: the waiters, for every semaphore the tokens put in and taken out, for
  every mutex the threads whose lock call has returned and that have not unlocked it since. The
  waiters and the semaphores are always as the ledger says. The mutexes exclude each other's holders
  exactly as long as nobody locks with a timeout that can expire.
\<close>

section \<open>The contract of the kernel's semaphores and mutexes\<close>

text \<open>
  How the kernel's objects look from outside: the tokens in a semaphore, whether a mutex is taken, the
  kernel timeouts that stand for waiting without limit, and the states in which a call has left an object
  when its caller is still waiting and the call has not returned. A wait without a token and a timed lock
  of a taken mutex wait, and return when their time is over if they have a limit. The error code is not
  the code of success. The token counter is taken not to overflow.
\<close>

record ('s, 'm) sync_view =
  tokens :: "'s \<Rightarrow> nat"
  asleep :: "'s \<Rightarrow> bool"
  taken :: "'m \<Rightarrow> bool"
  blocked :: "'m \<Rightarrow> bool"
  forever :: "int \<Rightarrow> bool"

locale kernel_sync =
  fixes A :: "('h, 's, 'm) os_api" and V :: "('s, 'm) sync_view"
  assumes count_init: "tokens V (mdx_sem_init A c) = unat c"
    and count_post: "tokens V (mdx_sem_post A x) = Suc (tokens V x)"
    and wait_token: "0 < tokens V x \<Longrightarrow> fst (mdx_sem_timedwait A t x) \<noteq> 0 \<and>
      Suc (tokens V (snd (mdx_sem_timedwait A t x))) = tokens V x \<and> \<not> asleep V (snd (mdx_sem_timedwait A t x))"
    and wait_expires: "tokens V x = 0 \<Longrightarrow> \<not> forever V t \<Longrightarrow> fst (mdx_sem_timedwait A t x) = 0 \<and>
      tokens V (snd (mdx_sem_timedwait A t x)) = 0 \<and> \<not> asleep V (snd (mdx_sem_timedwait A t x))"
    and wait_sleeps: "tokens V x = 0 \<Longrightarrow> forever V t \<Longrightarrow> asleep V (snd (mdx_sem_timedwait A t x))"
    and init_free: "\<not> taken V (mdx_mutex_init A)"
    and lock_takes: "\<not> taken V m \<Longrightarrow> taken V (mdx_mutex_lock A m) \<and> \<not> blocked V (mdx_mutex_lock A m)"
    and lock_blocks: "taken V m \<Longrightarrow> blocked V (mdx_mutex_lock A m)"
    and timedlock_takes: "\<not> taken V m \<or> \<not> forever V t \<Longrightarrow>
      taken V (snd (mdx_mutex_timedlock A t m)) \<and> \<not> blocked V (snd (mdx_mutex_timedlock A t m))"
    and timedlock_blocks: "taken V m \<Longrightarrow> forever V t \<Longrightarrow> blocked V (snd (mdx_mutex_timedlock A t m))"
    and unlock_frees: "\<not> taken V (mdx_mutex_unlock A m)"
    and error_code: "NRF_EAGAIN A \<noteq> 0"

section \<open>The system\<close>

record ledger =
  waiting :: "waiter list"
  put_in :: "nat \<Rightarrow> nat"
  taken_out :: "nat \<Rightarrow> nat"
  holders :: "nat \<Rightarrow> nat set"

definition empty_ledger :: ledger where
  "empty_ledger = \<lparr>waiting = [], put_in = (\<lambda>_. 0), taken_out = (\<lambda>_. 0), holders = (\<lambda>_. {})\<rparr>"

text \<open>
  One call, at the time it returns: the call that was made has not left its caller waiting. Threads use
  elements that have been handed out, do not lock a mutex they hold, unlock what they hold, and do not
  initialise a held mutex. \<open>T\<close> are the timeouts the threads lock with.
\<close>

inductive layer_step ::
    "('h, 's, 'm) os_api \<Rightarrow> ('s, 'm) sync_view \<Rightarrow> int set \<Rightarrow> ('h, 's, 'm) os \<times> ledger \<Rightarrow> ('h, 's, 'm) os \<times> ledger \<Rightarrow> bool"
  for A V T where
  wait: "os_step A (s, waiting L) (s', ws) \<Longrightarrow> layer_step A V T (s, L) (s', L\<lparr>waiting := ws\<rparr>)"
| sem_init: "nrf_modem_os_sem_init A p n limit s = Inr (Pool i, s') \<Longrightarrow>
     layer_step A V T (s, L) (s', L\<lparr>put_in := (put_in L)(i := unat n), taken_out := (taken_out L)(i := 0)\<rparr>)"
| give: "i < unat (sem_used s) \<Longrightarrow> nrf_modem_os_sem_give A (Pool i) s = Inr s' \<Longrightarrow>
     layer_step A V T (s, L) (s', L\<lparr>put_in := (put_in L)(i := Suc (put_in L i))\<rparr>)"
| take: "i < unat (sem_used s) \<Longrightarrow> nrf_modem_os_sem_take A (Pool i) timeout s = Inr (r, s') \<Longrightarrow>
     \<not> asleep V (nrf_modem_os_semaphores s' i) \<Longrightarrow>
     layer_step A V T (s, L)
       (s', if r = 0 then L\<lparr>taken_out := (taken_out L)(i := Suc (taken_out L i))\<rparr> else L)"
| mutex_init: "nrf_modem_os_mutex_init A p s = Inr (Pool i, s') \<Longrightarrow> holders L i = {} \<Longrightarrow>
     layer_step A V T (s, L) (s', L)"
| lock: "i < unat (mutex_used s) \<Longrightarrow> th \<notin> holders L i \<Longrightarrow> timeout \<in> T \<Longrightarrow>
     nrf_modem_os_mutex_lock A (Pool i) timeout s = Inr (0, s') \<Longrightarrow>
     \<not> blocked V (nrf_modem_os_mutexes s' i) \<Longrightarrow>
     layer_step A V T (s, L) (s', L\<lparr>holders := (holders L)(i := insert th (holders L i))\<rparr>)"
| unlock: "th \<in> holders L i \<Longrightarrow> nrf_modem_os_mutex_unlock A (Pool i) s = Inr (r, s') \<Longrightarrow>
     layer_step A V T (s, L) (s', L\<lparr>holders := (holders L)(i := holders L i - {th})\<rparr>)"

text \<open>The static counters and arrays are zero before \<open>nrf_modem_os_init\<close> runs.\<close>

inductive layer_reachable ::
    "('h, 's, 'm) os_api \<Rightarrow> platform \<Rightarrow> ('s, 'm) sync_view \<Rightarrow> int set \<Rightarrow> ('h, 's, 'm) os \<times> ledger \<Rightarrow> bool"
  for A P V T where
  boot: "sem_used s0 = 0 \<Longrightarrow> mutex_used s0 = 0 \<Longrightarrow> nrf_modem_os_init A P s0 = (Returned (), s) \<Longrightarrow>
     layer_reachable A P V T (s, empty_ledger)"
| step: "layer_reachable A P V T c \<Longrightarrow> layer_step A V T c c' \<Longrightarrow> layer_reachable A P V T c'"

text \<open>
  The timeouts with which a take and a lock are meant to wait without limit: -1, and those that are
  converted to a kernel timeout without limit.
\<close>

definition take_unbounded :: "('s, 'm) sync_view \<Rightarrow> int \<Rightarrow> bool" where
  "take_unbounded V timeout \<longleftrightarrow> forever V (if timeout = -1 then 0 else c_int (timeout * 1000))"

definition lock_unbounded :: "('s, 'm) sync_view \<Rightarrow> int \<Rightarrow> bool" where
  "lock_unbounded V timeout \<longleftrightarrow> timeout = -1 \<or> forever V (c_int (timeout * 1000))"

section \<open>Frame conditions\<close>

text \<open>The part of the state that the pools use, and the part that the list of sleeping threads uses.\<close>

definition pools :: "('h, 's, 'm) os \<Rightarrow> (nat \<Rightarrow> 's) \<times> (nat \<Rightarrow> 'm) \<times> u8 \<times> u8" where
  "pools s = (nrf_modem_os_semaphores s, nrf_modem_os_mutexes s, sem_used s, mutex_used s)"

definition sleepers :: "('h, 's, 'm) os \<Rightarrow> 'h \<times> (addr \<Rightarrow> 's) \<times> (addr \<Rightarrow> u32)" where
  "sleepers s = (os_heap s, td_sem s, td_context s)"

lemma os_rel_sleepers: "sleepers s' = sleepers s \<Longrightarrow> os_rel A rep s' ws = os_rel A rep s ws"
  by (simp add: os_rel_def sleepers_def)

lemma pools_event [simp]: "pools (os_event e s) = pools s"
  by (simp add: pools_def os_event_def)

lemma for_each_td_pools:
  assumes "for_each_td A f td s = Some s'" and "\<And>t s. pools (f t s) = pools s"
  shows "pools s' = pools s"
proof -
  have "(\<forall>t s. pools (f t s) = pools s) \<longrightarrow> pools s' = pools s"
  proof (rule for_each_td.raw_induct [where P = "\<lambda>A f td s s'. (\<forall>t s. pools (f t s) = pools s) \<longrightarrow> pools s' = pools s",
        OF _ assms(1)], rule impI)
    fix rec A f td s s'
    assume IH: "\<And>A f td s s'. rec A f td s = Some s' \<Longrightarrow> (\<forall>t s. pools (f t s) = pools s) \<longrightarrow> pools s' = pools s"
      and run: "(case td of None \<Rightarrow> Some s | Some t \<Rightarrow> let s' = f t s in rec A f (td_next A t s') s') = Some s'"
      and f: "\<forall>t s. pools (f t s) = pools s"
    from run show "pools s' = pools s"
      using IH f by (auto simp: Let_def split: option.splits)
  qed
  with assms(2) show ?thesis by simp
qed

lemma pools_post_td [simp]: "pools (post_td A td s) = pools s"
  by (simp add: pools_def post_td_def)

lemma pools_if [simp]: "pools (if b then s else s') = (if b then pools s else pools s')"
  by simp

lemma os_step_pools: "os_step A c c' \<Longrightarrow> pools (fst c') = pools (fst c)"
proof (induction rule: os_step.induct)
  case (notify ctxt s s' ws)
  then show ?case by (auto simp: nrf_modem_os_event_notify_def dest!: for_each_td_pools)
next
  case (shutdown s s' ws)
  then show ?case by (auto simp: nrf_modem_os_shutdown_def Let_def dest!: for_each_td_pools)
qed (auto simp: timedwait_enter_def timedwait_leave_def critical_def Let_def split_beta pools_def os_event_def
    split: if_splits)

lemma pool_calls_sleepers:
  "nrf_modem_os_sem_init A p n limit s = Inr (h, s') \<Longrightarrow> sleepers s' = sleepers s"
  "nrf_modem_os_sem_give A p s = Inr s' \<Longrightarrow> sleepers s' = sleepers s"
  "nrf_modem_os_sem_take A p timeout s = Inr (r, s') \<Longrightarrow> sleepers s' = sleepers s"
  "nrf_modem_os_mutex_init A p s = Inr (h, s') \<Longrightarrow> sleepers s' = sleepers s"
  "nrf_modem_os_mutex_lock A p timeout s = Inr (r, s') \<Longrightarrow> sleepers s' = sleepers s"
  "nrf_modem_os_mutex_unlock A p s = Inr (r, s') \<Longrightarrow> sleepers s' = sleepers s"
  by (auto simp: sleepers_def nrf_modem_os_sem_init_def nrf_modem_os_sem_give_def nrf_modem_os_sem_take_def
      nrf_modem_os_mutex_init_def nrf_modem_os_mutex_lock_def nrf_modem_os_mutex_unlock_def Let_def
      split: option.splits if_splits handle.splits prod.splits)

text \<open>What an initialisation leaves: the element it returns is new, the others are as before.\<close>

lemma next_index:
  assumes "j < unat (u + 1 :: u8)"
  shows "j < unat u \<or> j = unat u"
proof -
  have "unat (u + 1) \<le> Suc (unat u)" using mod_less_eq_dividend [of "Suc (unat u)" 256] by (simp add: unat_word_ariths)
  with assms show ?thesis by linarith
qed

lemma sem_init_cells:
  assumes "nrf_modem_os_sem_init A p n limit s = Inr (Pool i, s')"
  shows "nrf_modem_os_semaphores s' = (nrf_modem_os_semaphores s)(i := mdx_sem_init A n)"
    and "nrf_modem_os_mutexes s' = nrf_modem_os_mutexes s" and "mutex_used s' = mutex_used s"
    and "j < unat (sem_used s') \<Longrightarrow> j < unat (sem_used s) \<or> j = i"
  using assms next_index [of j "sem_used s"]
  by (auto simp: nrf_modem_os_sem_init_def Let_def find_Some_iff split: option.splits if_splits)

lemma mutex_init_cells:
  assumes "nrf_modem_os_mutex_init A p s = Inr (Pool i, s')"
  shows "nrf_modem_os_mutexes s' = (nrf_modem_os_mutexes s)(i := mdx_mutex_init A)"
    and "nrf_modem_os_semaphores s' = nrf_modem_os_semaphores s" and "sem_used s' = sem_used s"
    and "j < unat (mutex_used s') \<Longrightarrow> j < unat (mutex_used s) \<or> j = i"
  using assms next_index [of j "mutex_used s"]
  by (auto simp: nrf_modem_os_mutex_init_def Let_def find_Some_iff split: option.splits if_splits)

section \<open>Invariants\<close>

definition accounts :: "('s, 'm) sync_view \<Rightarrow> ('h, 's, 'm) os \<Rightarrow> ledger \<Rightarrow> bool" where
  "accounts V s L \<longleftrightarrow>
     (\<forall>i < unat (sem_used s). tokens V (nrf_modem_os_semaphores s i) + taken_out L i = put_in L i)"

definition exclusive :: "('s, 'm) sync_view \<Rightarrow> ('h, 's, 'm) os \<Rightarrow> ledger \<Rightarrow> bool" where
  "exclusive V s L \<longleftrightarrow>
     (\<forall>i. (\<exists>th. holders L i \<subseteq> {th}) \<and> (holders L i \<noteq> {} \<longrightarrow> taken V (nrf_modem_os_mutexes s i)))"

definition held :: "('s, 'm) sync_view \<Rightarrow> ('h, 's, 'm) os \<Rightarrow> ledger \<Rightarrow> bool" where
  "held V s L \<longleftrightarrow> (\<forall>i < unat (mutex_used s). taken V (nrf_modem_os_mutexes s i) \<longrightarrow> holders L i \<noteq> {})"

lemma pools_eq:
  "pools s' = pools s \<longleftrightarrow> nrf_modem_os_semaphores s' = nrf_modem_os_semaphores s \<and>
     nrf_modem_os_mutexes s' = nrf_modem_os_mutexes s \<and> sem_used s' = sem_used s \<and> mutex_used s' = mutex_used s"
  by (auto simp: pools_def)

lemma init_pools: "nrf_modem_os_init A P s0 = (Returned (), s) \<Longrightarrow> pools s = pools s0"
  by (auto simp: nrf_modem_os_init_def Let_def split_beta pools_def os_event_def split: if_splits)

lemma give_cells:
  assumes "nrf_modem_os_sem_give A (Pool i) s = Inr s'"
  shows "nrf_modem_os_semaphores s' = (nrf_modem_os_semaphores s)(i := mdx_sem_post A (nrf_modem_os_semaphores s i))"
    and "nrf_modem_os_mutexes s' = nrf_modem_os_mutexes s" and "sem_used s' = sem_used s" and "mutex_used s' = mutex_used s"
  using assms by (auto simp: nrf_modem_os_sem_give_def)

lemma take_cells:
  assumes "nrf_modem_os_sem_take A (Pool i) timeout s = Inr (r, s')"
  shows "nrf_modem_os_mutexes s' = nrf_modem_os_mutexes s" and "sem_used s' = sem_used s" and "mutex_used s' = mutex_used s"
  using assms by (auto simp: nrf_modem_os_sem_take_def Let_def split_beta)

lemma lock_cells:
  assumes "nrf_modem_os_mutex_lock A (Pool i) timeout s = Inr (r, s')"
  shows "nrf_modem_os_semaphores s' = nrf_modem_os_semaphores s" and "sem_used s' = sem_used s" and "mutex_used s' = mutex_used s"
  using assms by (auto simp: nrf_modem_os_mutex_lock_def Let_def)

lemma unlock_cells:
  assumes "nrf_modem_os_mutex_unlock A (Pool i) s = Inr (r, s')"
  shows "nrf_modem_os_mutexes s' = (nrf_modem_os_mutexes s)(i := mdx_mutex_unlock A (nrf_modem_os_mutexes s i))"
    and "nrf_modem_os_semaphores s' = nrf_modem_os_semaphores s" and "sem_used s' = sem_used s" and "mutex_used s' = mutex_used s"
  using assms by (auto simp: nrf_modem_os_mutex_unlock_def)

context kernel_sync
begin

lemma posted_wait: "0 < n \<Longrightarrow> fst (mdx_sem_timedwait A t ((mdx_sem_post A ^^ n) (mdx_sem_init A 0))) \<noteq> 0"
proof -
  have "tokens V ((mdx_sem_post A ^^ n) (mdx_sem_init A 0)) = n" by (induction n) (simp_all add: count_init count_post)
  then show "0 < n \<Longrightarrow> ?thesis" using wait_token by simp
qed

lemma take_result:
  assumes "nrf_modem_os_sem_take A (Pool i) timeout s = Inr (r, s')"
    and "take_unbounded V timeout \<longrightarrow> 0 < tokens V (nrf_modem_os_semaphores s i)"
  shows "r = (if 0 < tokens V (nrf_modem_os_semaphores s i) then 0 else - NRF_EAGAIN A)"
    and "tokens V (nrf_modem_os_semaphores s' j) =
      (if j = i then tokens V (nrf_modem_os_semaphores s i) - 1 else tokens V (nrf_modem_os_semaphores s j))"
    and "\<not> asleep V (nrf_modem_os_semaphores s' i)"
proof -
  define t where "t = (if timeout = -1 then 0 else c_int (timeout * 1000))"
  let ?x = "nrf_modem_os_semaphores s i"
  have w: "(fst (mdx_sem_timedwait A t ?x) \<noteq> 0 \<longleftrightarrow> 0 < tokens V ?x) \<and>
      tokens V (snd (mdx_sem_timedwait A t ?x)) = tokens V ?x - 1 \<and> \<not> asleep V (snd (mdx_sem_timedwait A t ?x))"
  proof (cases "0 < tokens V ?x")
    case True
    then show ?thesis using wait_token [OF True, of t] by auto
  next
    case False
    with assms(2) have "\<not> forever V t" by (simp add: take_unbounded_def t_def)
    with False show ?thesis using wait_expires [of ?x t] by simp
  qed
  have "r = (if fst (mdx_sem_timedwait A t ?x) = 0 then - NRF_EAGAIN A else 0)"
    and "nrf_modem_os_semaphores s' = (nrf_modem_os_semaphores s)(i := snd (mdx_sem_timedwait A t ?x))"
    using assms(1) by (simp_all add: nrf_modem_os_sem_take_def Let_def split_beta flip: t_def) auto
  with w show "r = (if 0 < tokens V ?x then 0 else - NRF_EAGAIN A)"
    "tokens V (nrf_modem_os_semaphores s' j) = (if j = i then tokens V ?x - 1 else tokens V (nrf_modem_os_semaphores s j))"
    "\<not> asleep V (nrf_modem_os_semaphores s' i)"
    by auto
qed

text \<open>A take that has returned either had a limit or got a token.\<close>

lemma take_returned:
  assumes "nrf_modem_os_sem_take A (Pool i) timeout s = Inr (r, s')" and "\<not> asleep V (nrf_modem_os_semaphores s' i)"
  shows "take_unbounded V timeout \<longrightarrow> 0 < tokens V (nrf_modem_os_semaphores s i)"
proof -
  define t where "t = (if timeout = -1 then 0 else c_int (timeout * 1000))"
  have "nrf_modem_os_semaphores s' i = snd (mdx_sem_timedwait A t (nrf_modem_os_semaphores s i))"
    using assms(1) by (auto simp: nrf_modem_os_sem_take_def Let_def split_beta simp flip: t_def)
  with assms(2) wait_sleeps [of "nrf_modem_os_semaphores s i" t] show ?thesis
    by (auto simp: take_unbounded_def simp flip: t_def)
qed

text \<open>
  What \<open>nrf_modem_os_mutex_lock\<close> does to the mutex, for an arbitrary timeout: it returns success, and
  the caller is left waiting exactly when the mutex was taken and the lock has no limit.
\<close>

lemma lock_result:
  obtains s' m where "nrf_modem_os_mutex_lock A (Pool i) timeout s = Inr (0, s')"
    and "nrf_modem_os_mutexes s' = (nrf_modem_os_mutexes s)(i := m)"
    and "blocked V m \<longleftrightarrow> lock_unbounded V timeout \<and> taken V (nrf_modem_os_mutexes s i)"
    and "\<not> blocked V m \<longrightarrow> taken V m"
proof -
  let ?x = "nrf_modem_os_mutexes s i"
  let ?m = "if timeout = -1 then mdx_mutex_lock A ?x else snd (mdx_mutex_timedlock A (c_int (timeout * 1000)) ?x)"
  have "(blocked V ?m \<longleftrightarrow> lock_unbounded V timeout \<and> taken V ?x) \<and> (\<not> blocked V ?m \<longrightarrow> taken V ?m)"
    using lock_takes [of ?x] lock_blocks [of ?x] timedlock_takes [of ?x "c_int (timeout * 1000)"]
      timedlock_blocks [of ?x "c_int (timeout * 1000)"] by (auto simp: lock_unbounded_def)
  then show ?thesis using that [of "s\<lparr>nrf_modem_os_mutexes := (nrf_modem_os_mutexes s)(i := ?m)\<rparr>" ?m]
    by (simp add: nrf_modem_os_mutex_lock_def Let_def)
qed

lemma accounts_step:
  "layer_step A V T c c' \<Longrightarrow> accounts V (fst c) (snd c) \<Longrightarrow> accounts V (fst c') (snd c')"
proof (induction rule: layer_step.induct)
  case (wait s L s' ws)
  from os_step_pools [OF wait(1)] wait(2) show ?case by (simp add: pools_eq accounts_def)
next
  case (sem_init p n limit s i s' L)
  from sem_init_cells [OF sem_init(1)] sem_init(2) show ?case by (auto simp: accounts_def count_init)
next
  case (give i s s' L)
  from give_cells [OF give(2)] give(3) show ?case by (simp add: accounts_def count_post)
next
  case (take i s timeout r s' L)
  from take_result [OF take(2) take_returned [OF take(2,3)]] take_cells [OF take(2)] take(1,4) error_code show ?case
    by (auto simp: accounts_def)
next
  case (mutex_init p s i s' L)
  from mutex_init_cells [OF mutex_init(1)] mutex_init(3) show ?case by (simp add: accounts_def)
next
  case (lock i s th L timeout s')
  from lock_cells [OF lock(4)] lock(6) show ?case by (simp add: accounts_def)
next
  case (unlock th L i s r s')
  from unlock_cells [OF unlock(2)] unlock(3) show ?case by (simp add: accounts_def)
qed

text \<open>A step as the mutexes see it.\<close>

lemma mutex_step_cases:
  assumes "layer_step A V T (s, L) (s', L')"
  obtains (same) "nrf_modem_os_mutexes s' = nrf_modem_os_mutexes s" "mutex_used s' = mutex_used s" "holders L' = holders L"
  | (init) i where "nrf_modem_os_mutexes s' = (nrf_modem_os_mutexes s)(i := mdx_mutex_init A)" "holders L i = {}"
      "holders L' = holders L" "\<forall>j < unat (mutex_used s'). j < unat (mutex_used s) \<or> j = i"
  | (lock) i th timeout m where "nrf_modem_os_mutexes s' = (nrf_modem_os_mutexes s)(i := m)" "taken V m" "timeout \<in> T"
      "lock_unbounded V timeout \<longrightarrow> \<not> taken V (nrf_modem_os_mutexes s i)" "mutex_used s' = mutex_used s"
      "holders L' = (holders L)(i := insert th (holders L i))"
  | (unlock) i th m where "nrf_modem_os_mutexes s' = (nrf_modem_os_mutexes s)(i := m)" "\<not> taken V m" "th \<in> holders L i"
      "mutex_used s' = mutex_used s" "holders L' = (holders L)(i := holders L i - {th})"
  using assms
proof (cases rule: layer_step.cases)
  case (wait ws)
  then show ?thesis using os_step_pools [OF wait(2)] by (intro same) (simp_all add: pools_eq)
next
  case (sem_init p n limit i)
  then show ?thesis using sem_init_cells [OF sem_init(2)] by (intro same) simp_all
next
  case (give i)
  then show ?thesis using give_cells [OF give(3)] by (intro same) simp_all
next
  case (take i timeout r)
  then show ?thesis using take_cells [OF take(3)] by (intro same) simp_all
next
  case (mutex_init p i)
  then show ?thesis using mutex_init_cells [OF mutex_init(2)] by (intro init [of i]) auto
next
  case (lock i th timeout)
  obtain m where m: "nrf_modem_os_mutexes s' = (nrf_modem_os_mutexes s)(i := m)"
    "blocked V m \<longleftrightarrow> lock_unbounded V timeout \<and> taken V (nrf_modem_os_mutexes s i)" "\<not> blocked V m \<longrightarrow> taken V m"
    using lock_result [of i timeout s] lock(5) by (metis Inr_inject Pair_inject)
  with lock(6) have "\<not> blocked V m" by simp
  with m show ?thesis using that(3) lock lock_cells [OF lock(5)] by simp
next
  case (unlock th i r)
  then show ?thesis using unlock_cells [OF unlock(3)] unlock_frees that(4) by simp
qed

lemma held_step:
  assumes "layer_step A V T (s, L) (s', L')" and "held V s L"
  shows "held V s' L'"
  using assms(1) by (cases rule: mutex_step_cases) (use assms(2) init_free in \<open>auto simp: held_def\<close>)

lemma exclusive_step:
  assumes T: "\<forall>timeout \<in> T. lock_unbounded V timeout" and "layer_step A V T (s, L) (s', L')" and ex: "exclusive V s L"
  shows "exclusive V s' L'"
  using assms(2)
proof (cases rule: mutex_step_cases)
  case (lock i th timeout m)
  with T ex have "holders L i = {}" by (auto simp: exclusive_def)
  with lock ex show ?thesis by (auto simp: exclusive_def)
next
  case (unlock i th m)
  with ex have "holders L i - {th} = {}" by (auto simp: exclusive_def)
  with unlock ex show ?thesis by (auto simp: exclusive_def)
qed (use ex in \<open>auto simp: exclusive_def\<close>)

lemma reachable_accounts: "layer_reachable A P V T c \<Longrightarrow> accounts V (fst c) (snd c)"
proof (induction rule: layer_reachable.induct)
  case (boot s0 s)
  then show ?case using init_pools [OF boot(3)] by (simp add: accounts_def pools_eq)
qed (rule accounts_step)

lemma reachable_held: "layer_reachable A P V T c \<Longrightarrow> held V (fst c) (snd c)"
proof (induction rule: layer_reachable.induct)
  case (boot s0 s)
  then show ?case using init_pools [OF boot(3)] by (simp add: held_def pools_eq)
next
  case (step c c')
  then show ?case using held_step [of T "fst c" "snd c" "fst c'" "snd c'"] by simp
qed

lemma reachable_exclusive:
  assumes "\<forall>timeout \<in> T. lock_unbounded V timeout"
  shows "layer_reachable A P V T c \<Longrightarrow> exclusive V (fst c) (snd c)"
proof (induction rule: layer_reachable.induct)
  case (step c c')
  then show ?case using exclusive_step [OF assms, of "fst c" "snd c" "fst c'" "snd c'"] by simp
qed (simp add: exclusive_def empty_ledger_def)


text \<open>Two threads that lock the first mutex with a timeout that can expire both hold it.\<close>

lemma two_holders:
  assumes boot: "sem_used s0 = 0" "mutex_used s0 = 0" "nrf_modem_os_init A P s0 = (Returned (), s)"
    and cap: "0 < NRF_MODEM_OS_MTX_MAX A" and timeout: "timeout \<in> T" "\<not> lock_unbounded V timeout"
  shows "\<exists>s' L. layer_reachable A P V T (s', L) \<and> holders L 0 = {0, 1}"
proof -
  have r0: "layer_reachable A P V T (s, empty_ledger)" by (rule layer_reachable.boot [OF boot])
  have "mutex_used s = 0" using init_pools [OF boot(3)] boot(2) by (simp add: pools_eq)
  with mutex_pool.alloc [where A = A and p = "Foreign 0" and s = s] cap obtain s1 where
    s1: "nrf_modem_os_mutex_init A (Foreign 0) s = Inr (Pool 0, s1)" "mutex_used s1 = 1"
    by (auto simp: outside_def)
  let ?L = empty_ledger
  have r1: "layer_reachable A P V T (s1, ?L)"
    by (rule layer_reachable.step [OF r0 layer_step.mutex_init [OF s1(1)]]) (simp add: empty_ledger_def)
  have lock: "\<exists>s'. nrf_modem_os_mutex_lock A (Pool 0) timeout s = Inr (0, s') \<and> \<not> blocked V (nrf_modem_os_mutexes s' 0)" for s
    by (rule lock_result [of 0 timeout s]) (use timeout(2) in auto)
  then obtain s2 where s2: "nrf_modem_os_mutex_lock A (Pool 0) timeout s1 = Inr (0, s2)"
    "\<not> blocked V (nrf_modem_os_mutexes s2 0)" by blast
  let ?L2 = "?L\<lparr>holders := (holders ?L)(0 := insert 0 (holders ?L 0))\<rparr>"
  have r2: "layer_reachable A P V T (s2, ?L2)"
    by (rule layer_reachable.step [OF r1 layer_step.lock [OF _ _ timeout(1) s2]])
      (use s1(2) in \<open>simp_all add: empty_ledger_def\<close>)
  obtain s3 where s3: "nrf_modem_os_mutex_lock A (Pool 0) timeout s2 = Inr (0, s3)"
    "\<not> blocked V (nrf_modem_os_mutexes s3 0)" using lock by blast
  have "layer_reachable A P V T (s3, ?L2\<lparr>holders := (holders ?L2)(0 := insert 1 (holders ?L2 0))\<rparr>)"
    by (rule layer_reachable.step [OF r2 layer_step.lock [OF _ _ timeout(1) s3]])
      (use s1(2) lock_cells(3) [OF s2(1)] in \<open>simp_all add: empty_ledger_def\<close>)
  then show ?thesis by (intro exI conjI) (assumption, auto simp: empty_ledger_def)
qed

end

lemma layer_step_sleepers:
  "layer_step A V T c c' \<Longrightarrow> os_step A (fst c, waiting (snd c)) (fst c', waiting (snd c')) \<or>
     sleepers (fst c') = sleepers (fst c) \<and> waiting (snd c') = waiting (snd c)"
proof (induction rule: layer_step.induct)
  case (take i s timeout r s' L)
  then show ?case using pool_calls_sleepers(3) [OF take(2)] by simp
qed (simp_all add: pool_calls_sleepers)

context entry_list
begin

lemma layer_waiters: "layer_reachable A P V T c \<Longrightarrow> os_rel A rep (fst c) (waiting (snd c))"
proof (induction rule: layer_reachable.induct)
  case (boot s0 s)
  then show ?case using init_rel by (simp add: empty_ledger_def)
next
  case (step c c')
  from layer_step_sleepers [OF step(2)] show ?case
  proof (elim disjE conjE)
    assume "os_step A (fst c, waiting (snd c)) (fst c', waiting (snd c'))"
    from os_step_rel [OF this] step(3) show ?thesis by simp
  next
    assume "sleepers (fst c') = sleepers (fst c)" "waiting (snd c') = waiting (snd c)"
    with step(3) os_rel_sleepers [of "fst c'" "fst c" A rep] show ?thesis by simp
  qed
qed

end

section \<open>A concrete kernel\<close>

definition ring_view :: "(int, int) sync_view" where
  "ring_view = \<lparr>tokens = nat, asleep = (\<lambda>n. n < 0), taken = (\<lambda>m. 0 < m), blocked = (\<lambda>m. 1 < m), forever = (\<lambda>t. t = 0)\<rparr>"

interpretation ring_sync: kernel_sync ring_api ring_view
  by unfold_locales (auto simp: ring_view_def)

definition os0 :: "(ring, int, int) os" where
  "os0 = \<lparr>os_heap = \<lparr>nx = (\<lambda>_. 0), pv = (\<lambda>_. 0)\<rparr>, td_sem = (\<lambda>_. 0), td_context = (\<lambda>_. 0),
     nrf_modem_os_semaphores = (\<lambda>_. 0), nrf_modem_os_mutexes = (\<lambda>_. 0),
     sem_used = 0, mutex_used = 0, os_hist = []\<rparr>"

definition os_booted :: "(ring, int, int) os" where
  "os_booted = snd (nrf_modem_os_init ring_api all_ok os0)"

definition os_asleep :: "(ring, int, int) os" where
  "os_asleep = snd (timedwait_enter ring_api True 7 100 5 os_booted)"

abbreviation "waiter5 n \<equiv> \<lparr>w_td = 5, w_context = 7, w_posts = n\<rparr>"

lemma os_booted_init:
  "sem_used os0 = 0" "mutex_used os0 = 0" "nrf_modem_os_init ring_api all_ok os0 = (Returned (), os_booted)"
  by (simp_all add: os0_def os_booted_def nrf_modem_os_init_def mdx_device_lookup_by_name_def all_ok_def Let_def)

lemma os_booted_reachable: "layer_reachable ring_api all_ok ring_view T (os_booted, empty_ledger)"
  by (rule layer_reachable.boot [OF os_booted_init])

lemma os_asleep_enter: "timedwait_enter ring_api True 7 100 5 os_booted = (Block 100000, os_asleep)"
  by (simp add: os_asleep_def timedwait_enter_def Let_def c_int_id in_int_def)

lemma os_asleep_reachable:
  "layer_reachable ring_api all_ok ring_view T (os_asleep, empty_ledger\<lparr>waiting := [waiter5 0]\<rparr>)"
proof -
  have "os_step ring_api (os_booted, waiting empty_ledger) (os_asleep, [waiter5 0])"
    using os_step.enter [OF _ _ os_asleep_enter, of "[]"]
    by (simp add: sleeping_thread_list_def spec_enter_def empty_ledger_def)
  from layer_reachable.step [OF os_booted_reachable layer_step.wait [OF this]] show ?thesis .
qed

lemma os_asleep_rel: "os_rel ring_api ring_rep os_asleep [waiter5 0]"
  using ring_list.layer_waiters [OF os_asleep_reachable] by simp

lemma os_notified_reachable:
  "\<exists>s. layer_reachable ring_api all_ok ring_view T (s, empty_ledger\<lparr>waiting := [waiter5 1]\<rparr>)"
proof -
  obtain s where "nrf_modem_os_event_notify ring_api 7 os_asleep = Some s"
    using ring_list.notify_sim [OF os_asleep_rel, of 7] by blast
  from layer_reachable.step [OF os_asleep_reachable layer_step.wait [OF os_step.notify [OF this]]]
  show ?thesis by (auto simp: spec_notify_def)
qed

end
