(* ===== verification/OS_Properties.thy ===== *)
theory OS_Properties
  imports Layer
begin

text \<open>
  What the operating-system layer guarantees: under every interleaving of its calls the sleeping-thread
  list refines the queue of waiters and the semaphores hold the tokens the ledger says, mutexes exclude
  unless a lock can time out, notification and shutdown terminate and post exactly the right semaphores, a
  notified thread is never lost, the return codes of every branch, the range in which millisecond
  timeouts are converted exactly, and the pools.
\<close>

section \<open>The layer and the list of sleeping threads\<close>

text \<open>
  C1: the whole layer under every interleaving of its calls by any number of threads. The list of sleeping
  threads still refines the queue of waiters. Every semaphore holds exactly the tokens put in since its
  initialisation, by its initial count and by \<open>nrf_modem_os_sem_give\<close>, less those taken out, so no
  take succeeds without a token; the limit given at initialisation plays no part. A take returns success
  when there is a token and the error code otherwise, unless it waits without limit. Taking with
  timeout 0 makes the same kernel call as waiting for ever.
\<close>

theorem layer_accounts:
  assumes "entry_list A rep" and "kernel_sync A V" and "layer_reachable A P V T (s, L)"
  shows "os_rel A rep s (waiting L) \<and> distinct (map w_td (waiting L)) \<and>
    (\<forall>i < unat (sem_used s). taken_out L i \<le> put_in L i \<and>
       tokens V (nrf_modem_os_semaphores s i) = put_in L i - taken_out L i \<and>
       (\<forall>timeout. taken_out L i < put_in L i \<or> \<not> take_unbounded V timeout \<longrightarrow>
          (\<exists>s'. nrf_modem_os_sem_take A (Pool i) timeout s =
             Inr (if taken_out L i < put_in L i then 0 else - NRF_EAGAIN A, s')))) \<and>
    (\<forall>p. nrf_modem_os_sem_take A p 0 s = nrf_modem_os_sem_take A p (-1) s)"
proof (intro conjI allI impI)
  show rel: "os_rel A rep s (waiting L)" using entry_list.layer_waiters [OF assms(1,3)] by simp
  show "distinct (map w_td (waiting L))" using entry_list.os_rel_distinct [OF assms(1) rel] .
  show "nrf_modem_os_sem_take A p 0 s = nrf_modem_os_sem_take A p (-1) s" for p
    by (simp add: nrf_modem_os_sem_take_def c_int_id in_int_def split: handle.splits)
  fix i assume "i < unat (sem_used s)"
  with kernel_sync.reachable_accounts [OF assms(2,3)]
  have a: "tokens V (nrf_modem_os_semaphores s i) + taken_out L i = put_in L i" by (simp add: accounts_def)
  then show "taken_out L i \<le> put_in L i" "tokens V (nrf_modem_os_semaphores s i) = put_in L i - taken_out L i" by simp_all
  fix timeout assume t: "taken_out L i < put_in L i \<or> \<not> take_unbounded V timeout"
  obtain r s' where take: "nrf_modem_os_sem_take A (Pool i) timeout s = Inr (r, s')"
    by (simp add: nrf_modem_os_sem_take_def Let_def split_beta)
  from a t have "take_unbounded V timeout \<longrightarrow> 0 < tokens V (nrf_modem_os_semaphores s i)" by auto
  from kernel_sync.take_result(1) [OF assms(2) take this] take a
  show "\<exists>s'. nrf_modem_os_sem_take A (Pool i) timeout s =
      Inr (if taken_out L i < put_in L i then 0 else - NRF_EAGAIN A, s')"
    by auto
qed

text \<open>A semaphore with one token is taken once; the second take, with a timeout, is refused.\<close>

theorem layer_accounts_witness:
  "\<exists>s L s'. layer_reachable ring_api all_ok ring_view {} (s, L) \<and> put_in L 0 = 1 \<and> taken_out L 0 = 1 \<and>
     nrf_modem_os_sem_take ring_api (Pool 0) 5 s = Inr (-11, s') \<and>
     nrf_modem_os_sem_take ring_api (Pool 0) 0 s = nrf_modem_os_sem_take ring_api (Pool 0) (-1) s"
proof -
  let ?reach = "layer_reachable ring_api all_ok ring_view {}"
  have r0: "?reach (os_booted, empty_ledger)" by (rule os_booted_reachable)
  have "sem_used os_booted = 0" using init_pools [OF os_booted_init(3)] os_booted_init(1) by (simp add: pools_eq)
  then have "nrf_modem_os_sem_init ring_api (Foreign 0) 1 1 os_booted =
      Inr (Pool 0, os_booted\<lparr>sem_used := 1, nrf_modem_os_semaphores := (nrf_modem_os_semaphores os_booted)(0 := 1)\<rparr>)"
    by (simp add: nrf_modem_os_sem_init_def upt_rec)
  then obtain s1 where s1: "nrf_modem_os_sem_init ring_api (Foreign 0) 1 1 os_booted = Inr (Pool 0, s1)"
    "sem_used s1 = 1" "nrf_modem_os_semaphores s1 0 = 1" by simp
  obtain s where s: "nrf_modem_os_sem_take ring_api (Pool 0) (-1) s1 = Inr (0, s)" "nrf_modem_os_semaphores s 0 = 0"
    using s1(3) by (simp add: nrf_modem_os_sem_take_def)
  obtain L where L: "?reach (s, L)" "put_in L 0 = 1" "taken_out L 0 = 1"
    using layer_reachable.step [OF layer_reachable.step [OF r0 layer_step.sem_init [OF s1(1)]]
        layer_step.take [OF _ s(1)]] s1(2,3) s(2) by (simp add: ring_view_def)
  have "sem_used s = 1" using take_cells [OF s(1)] s1(2) by simp
  moreover have "\<not> take_unbounded ring_view 5" by (simp add: take_unbounded_def ring_view_def c_int_id in_int_def)
  ultimately show ?thesis
    using layer_accounts [OF ring_list.entry_list_axioms ring_sync.kernel_sync_axioms L(1)] L by fastforce
qed

text \<open>
  C4: \<open>nrf_modem_os_event_notify\<close> terminates, posts the semaphore of every sleeping thread
  whose context matches (all of them for context 0) exactly once, and changes nothing else.
\<close>

theorem notify_posts_matching:
  assumes "entry_list A rep" and "os_rel A rep s ws"
  shows "nrf_modem_os_event_notify A context s =
    Some (s\<lparr>td_sem := (\<lambda>t. if t \<in> w_td ` set ws \<and> (td_context s t = context \<or> context = 0)
            then mdx_sem_post A (td_sem s t) else td_sem s t)\<rparr>)"
  by (rule entry_list.notify_exact [OF assms])

theorem notify_posts_matching_witness:
  "nrf_modem_os_event_notify ring_api 7 os_asleep = Some (os_asleep\<lparr>td_sem := (td_sem os_asleep)(5 := 1)\<rparr>) \<and>
   nrf_modem_os_event_notify ring_api 8 os_asleep = Some os_asleep"
proof -
  have sel: "td_sem os_asleep 5 = 0" "td_context os_asleep 5 = 7"
    using os_asleep_rel by (simp_all add: os_rel_def)
  then have "(\<lambda>t. if t = 5 \<and> td_context os_asleep t = 7 then max 0 (td_sem os_asleep t) + 1 else td_sem os_asleep t)
      = (td_sem os_asleep)(5 := 1)"
    by auto
  then show ?thesis
    using notify_posts_matching [OF ring_list.entry_list_axioms os_asleep_rel] sel
    by (simp cong: conj_cong if_cong)
qed

lemma leave_posted:
  assumes "os_rel A rep s ws" and "w \<in> set ws" and "0 < w_posts w"
    and "\<And>t n. 0 < n \<Longrightarrow> fst (mdx_sem_timedwait A t ((mdx_sem_post A ^^ n) (mdx_sem_init A 0))) \<noteq> 0"
  shows "fst (timedwait_leave A True val tmout (w_td w) s) = 0"
proof -
  have "td_sem s (w_td w) = (mdx_sem_post A ^^ w_posts w) (mdx_sem_init A 0)"
    using assms(1,2) by (auto simp: os_rel_def)
  with assms(3,4) show ?thesis by (simp add: timedwait_leave_def Let_def split_beta)
qed

text \<open>
  C5: no wake-up is lost. If a thread has been notified since it went to sleep, however the other
  calls of the layer were interleaved, its wait reports success rather than a timeout and takes it off
  the list.
\<close>

theorem notified_wait_succeeds:
  assumes "entry_list A rep" and "kernel_sync A V" and "layer_reachable A P V T (s, L)"
    and "w \<in> set (waiting L)" and "0 < w_posts w"
  shows "fst (timedwait_leave A True val tmout (w_td w) s) = 0 \<and>
    os_rel A rep (snd (timedwait_leave A True val tmout (w_td w) s)) (spec_leave (w_td w) (waiting L))"
proof -
  have rel: "os_rel A rep s (waiting L)" using entry_list.layer_waiters [OF assms(1,3)] by simp
  from leave_posted [OF this assms(4,5) kernel_sync.posted_wait [OF assms(2)]]
    entry_list.leave_sim [OF assms(1) rel assms(4)] show ?thesis by simp
qed

theorem notified_wait_succeeds_witness:
  "\<exists>s. layer_reachable ring_api all_ok ring_view {} (s, empty_ledger\<lparr>waiting := [waiter5 1]\<rparr>) \<and>
     fst (timedwait_leave ring_api True 100 100000 5 s) = 0"
proof -
  obtain s where s: "layer_reachable ring_api all_ok ring_view {} (s, empty_ledger\<lparr>waiting := [waiter5 1]\<rparr>)"
    using os_notified_reachable by blast
  have "fst (timedwait_leave ring_api True 100 100000 5 s) = 0"
    using notified_wait_succeeds [OF ring_list.entry_list_axioms ring_sync.kernel_sync_axioms s, of "waiter5 1" 100 100000]
    by simp
  with s show ?thesis by blast
qed

text \<open>
  C18: \<open>nrf_modem_os_shutdown\<close> terminates and wakes every sleeping thread: none of their waits
  times out any more, and each returns \<open>-NRF_ESHUTDOWN\<close> once the library reports that it is
  shut down.
\<close>

theorem shutdown_wakes_all:
  assumes "entry_list A rep" and "kernel_sync A V" and "layer_reachable A P V T (s, L)"
  shows "\<exists>s'. nrf_modem_os_shutdown A s = Some s' \<and> os_rel A rep s' (spec_shutdown (waiting L)) \<and>
    (\<forall>w \<in> set (waiting L). fst (mdx_sem_timedwait A tmout (td_sem s' (w_td w))) \<noteq> 0 \<and>
       fst (timedwait_leave A False val tmout (w_td w) s') = - NRF_ESHUTDOWN A)"
proof -
  have "os_rel A rep s (waiting L)" using entry_list.layer_waiters [OF assms(1,3)] by simp
  then obtain s' where s': "nrf_modem_os_shutdown A s = Some s'" "os_rel A rep s' (spec_shutdown (waiting L))"
    using entry_list.shutdown_sim [OF assms(1)] by blast
  have "fst (mdx_sem_timedwait A tmout (td_sem s' (w_td w))) \<noteq> 0" if "w \<in> set (waiting L)" for w
  proof -
    from that s'(2) have "td_sem s' (w_td w) = (mdx_sem_post A ^^ Suc (w_posts w)) (mdx_sem_init A 0)"
      by (force simp: os_rel_def spec_shutdown_def simp del: funpow.simps)
    with kernel_sync.posted_wait [OF assms(2), of "Suc (w_posts w)"] show ?thesis by (simp del: funpow.simps)
  qed
  with s' show ?thesis by (auto simp: timedwait_leave_def Let_def split_beta)
qed

theorem shutdown_wakes_all_witness:
  "\<exists>s'. nrf_modem_os_shutdown ring_api os_asleep = Some s' \<and>
     fst (timedwait_leave ring_api False 100 100000 5 s') = -110"
  using shutdown_wakes_all [OF ring_list.entry_list_axioms ring_sync.kernel_sync_axioms os_asleep_reachable [of "{}"], of 100000 100]
  by auto

section \<open>Mutual exclusion\<close>

text \<open>
  C2: mutual exclusion. Whatever the threads do, a mutex has at most one holder, where a thread holds a mutex
  when its lock call has returned success and it has not unlocked it since, if and only if no thread
  locks with a timeout that can expire: the result of the timed lock is not looked at. A mutex that
  nobody holds can be locked.
\<close>

theorem mutual_exclusion:
  assumes "kernel_sync A V" and "0 < NRF_MODEM_OS_MTX_MAX A"
    and "sem_used s0 = 0" and "mutex_used s0 = 0" and "nrf_modem_os_init A P s0 = (Returned (), s1)"
  shows "((\<forall>s L i a b. layer_reachable A P V T (s, L) \<and> a \<in> holders L i \<and> b \<in> holders L i \<longrightarrow> a = b) \<longleftrightarrow>
      (\<forall>timeout \<in> T. lock_unbounded V timeout)) \<and>
    (\<forall>s L i th timeout. layer_reachable A P V T (s, L) \<and> i < unat (mutex_used s) \<and> holders L i = {} \<and> timeout \<in> T \<longrightarrow>
      (\<exists>s'. nrf_modem_os_mutex_lock A (Pool i) timeout s = Inr (0, s') \<and>
         layer_step A V T (s, L) (s', L\<lparr>holders := (holders L)(i := {th})\<rparr>)))"
proof (intro conjI iffI)
  show "\<forall>timeout \<in> T. lock_unbounded V timeout"
    if "\<forall>s L i a b. layer_reachable A P V T (s, L) \<and> a \<in> holders L i \<and> b \<in> holders L i \<longrightarrow> a = b"
    using that kernel_sync.two_holders [OF assms(1,3,4,5,2)] by (metis insertI1 insertI2 zero_neq_one)
  show "\<forall>s L i a b. layer_reachable A P V T (s, L) \<and> a \<in> holders L i \<and> b \<in> holders L i \<longrightarrow> a = b"
    if T: "\<forall>timeout \<in> T. lock_unbounded V timeout"
  proof (intro allI impI, elim conjE)
    fix s L i a b
    assume "layer_reachable A P V T (s, L)" "a \<in> holders L i" "b \<in> holders L i"
    moreover from this(1) obtain th where "holders L i \<subseteq> {th}"
      using kernel_sync.reachable_exclusive [OF assms(1) T] by (fastforce simp: exclusive_def)
    ultimately show "a = b" by auto
  qed
  show "\<forall>s L i th timeout. layer_reachable A P V T (s, L) \<and> i < unat (mutex_used s) \<and> holders L i = {} \<and> timeout \<in> T \<longrightarrow>
      (\<exists>s'. nrf_modem_os_mutex_lock A (Pool i) timeout s = Inr (0, s') \<and>
         layer_step A V T (s, L) (s', L\<lparr>holders := (holders L)(i := {th})\<rparr>))"
  proof (intro allI impI, elim conjE)
    fix s L i th timeout
    assume r: "layer_reachable A P V T (s, L)" and i: "i < unat (mutex_used s)" "holders L i = {}" "timeout \<in> T"
    have free: "\<not> taken V (nrf_modem_os_mutexes s i)"
      using kernel_sync.reachable_held [OF assms(1) r] i by (auto simp: held_def)
    obtain s' where s': "nrf_modem_os_mutex_lock A (Pool i) timeout s = Inr (0, s')"
      "\<not> blocked V (nrf_modem_os_mutexes s' i)"
      by (rule kernel_sync.lock_result [OF assms(1), of i timeout s]) (use free in auto)
    with layer_step.lock [OF i(1) _ i(3) s', of th L] i(2)
    show "\<exists>s'. nrf_modem_os_mutex_lock A (Pool i) timeout s = Inr (0, s') \<and>
        layer_step A V T (s, L) (s', L\<lparr>holders := (holders L)(i := {th})\<rparr>)" by auto
  qed
qed

text \<open>A timeout of 10 ms is enough for two holders; without it, the mutex excludes.\<close>

theorem mutual_exclusion_witness:
  "(\<exists>s L i a b. layer_reachable ring_api all_ok ring_view {-1, 10} (s, L) \<and> a \<in> holders L i \<and> b \<in> holders L i \<and> a \<noteq> b) \<and>
   \<not> (\<exists>s L i a b. layer_reachable ring_api all_ok ring_view {-1, 0} (s, L) \<and> a \<in> holders L i \<and> b \<in> holders L i \<and> a \<noteq> b)"
proof -
  note me = mutual_exclusion [OF ring_sync.kernel_sync_axioms _ os_booted_init, THEN conjunct1]
  have "\<not> lock_unbounded ring_view 10" "lock_unbounded ring_view (-1)" "lock_unbounded ring_view 0"
    by (simp_all add: lock_unbounded_def ring_view_def c_int_id in_int_def)
  with me [of "{-1, 10}"] me [of "{-1, 0}"] show ?thesis by auto
qed

section \<open>Return codes and timeouts\<close>

text \<open>
  The result of \<open>nrf_modem_os_timedwait\<close> on every branch, whatever happens while it
  blocks. In particular a negative timeout reports a wake-up (0) even when the half second it
  waits at most has run out, although the comment above the function promises
  \<open>-NRF_EAGAIN\<close> for an expired timeout.
\<close>

lemma timedwait_result:
  "fst (nrf_modem_os_timedwait A init1 others init2 context val td s) =
     (if \<not> init1 then - NRF_ESHUTDOWN A
      else if val = 0 then - NRF_EAGAIN A
      else if \<not> init2 then - NRF_ESHUTDOWN A
      else if val < 0 then 0
      else if fst (mdx_sem_timedwait A (c_int (val * 1000))
                (td_sem (others (snd (timedwait_enter A init1 context val td s))) td)) = 0
      then - NRF_EAGAIN A else 0)"
  by (auto simp: nrf_modem_os_timedwait_def timedwait_enter_def timedwait_leave_def Let_def split_beta)

text \<open>
  The millisecond timeout of a timed wait is converted to microseconds exactly up to
  2147483 ms (about 35 minutes); every longer one overflows the 32-bit product.
\<close>

lemma timedwait_timeout_exact:
  assumes "0 < val" and "in_int val" and "timedwait_enter A True context val td s = (Block tmout, s')"
  shows "tmout = val * 1000 \<longleftrightarrow> val \<le> 2147483"
proof -
  have "tmout = c_int (val * 1000)"
    using assms by (auto simp: timedwait_enter_def Let_def)
  then show ?thesis using assms(1) by (auto simp: c_int_eq_iff in_int_def)
qed

text \<open>
  \<open>nrf_modem_os_sleep\<close> rejects the two special values without sleeping; otherwise it
  sleeps once, for exactly the requested milliseconds if and only if they are at most 4294967
  (about 71 minutes); a longer request wraps around to a shorter sleep.
\<close>

lemma sleep_duration:
  "nrf_modem_os_sleep A timeout s =
     (if timeout \<in> {NRF_MODEM_OS_NO_WAIT A, NRF_MODEM_OS_FOREVER A} then (- NRF_EINVAL A, s)
      else (0, os_event (Usleep (timeout * 1000)) s)) \<and>
   (unat (timeout * 1000) = unat timeout * 1000 \<longleftrightarrow> unat timeout \<le> 4294967) \<and>
   unat (timeout * 1000) \<le> unat timeout * 1000"
proof -
  have "unat (timeout * 1000) = unat timeout * 1000 mod 4294967296"
    by (simp add: unat_word_ariths)
  moreover have "unat timeout * 1000 mod 4294967296 = unat timeout * 1000 \<longleftrightarrow> unat timeout \<le> 4294967"
    by (auto simp: mod_eq_self_iff_div_eq_0 div_eq_0_iff)
  ultimately show ?thesis by (auto simp: nrf_modem_os_sleep_def)
qed

section \<open>Semaphores and mutexes\<close>

text \<open>
  The first initialisations of semaphores through pointers that do not name pool elements
  get the elements 0, 1, 2, ... of the array, all distinct, each initialised with its own count;
  when there are more of them than elements, the assertion stops the last one. The hypothesis
  on the modem library's constant is that the 8-bit counter can hold it.
\<close>

lemma sem_pool_allocation:
  assumes "NRF_MODEM_OS_SEM_MAX A \<le> 255" and "sem_used s = 0"
    and "\<forall>((count, limit), p) \<in> set rs. outside (NRF_MODEM_OS_SEM_MAX A) p"
  shows "(length rs \<le> NRF_MODEM_OS_SEM_MAX A \<longrightarrow>
      (\<exists>s'. init_all (\<lambda>(count, limit) p. nrf_modem_os_sem_init A p count limit) rs s =
          Inr (map Pool [0..<length rs], s') \<and>
        (\<forall>k<length rs. nrf_modem_os_semaphores s' k = mdx_sem_init A (fst (fst (rs ! k)))))) \<and>
    (NRF_MODEM_OS_SEM_MAX A < length rs \<longrightarrow>
      init_all (\<lambda>(count, limit) p. nrf_modem_os_sem_init A p count limit) rs s =
        Inl (Kassert ''Max semaphores reached.''))"
proof -
  have out: "\<forall>(c, p) \<in> set rs. outside (NRF_MODEM_OS_SEM_MAX A) p"
    using assms(3) by auto
  show ?thesis
    using sem_pool.alloc_all [OF out assms(1), of s] sem_pool.exhausted [OF out assms(1), of s] assms(2)
    by (auto simp: split_beta)
qed

text \<open>
  Mutexes are handed out in the same way.
\<close>

lemma mutex_pool_allocation:
  assumes "NRF_MODEM_OS_MTX_MAX A \<le> 255" and "mutex_used s = 0"
    and "\<forall>p \<in> set ps. outside (NRF_MODEM_OS_MTX_MAX A) p"
  shows "(length ps \<le> NRF_MODEM_OS_MTX_MAX A \<longrightarrow>
      (\<exists>s'. init_all (\<lambda>_ :: unit. nrf_modem_os_mutex_init A) (map (Pair ()) ps) s =
          Inr (map Pool [0..<length ps], s') \<and>
        (\<forall>k<length ps. nrf_modem_os_mutexes s' k = mdx_mutex_init A))) \<and>
    (NRF_MODEM_OS_MTX_MAX A < length ps \<longrightarrow>
      init_all (\<lambda>_ :: unit. nrf_modem_os_mutex_init A) (map (Pair ()) ps) s =
        Inl (Kassert ''Max mutex reached.''))"
proof -
  have out: "\<forall>(c, p) \<in> set (map (Pair ()) ps). outside (NRF_MODEM_OS_MTX_MAX A) p"
    using assms(3) by auto
  show ?thesis
    using mutex_pool.alloc_all [OF out assms(1), of s] mutex_pool.exhausted [OF out assms(1), of s] assms(2)
    by auto
qed

text \<open>
  Taking a semaphore with timeout 0 is the same call as taking it with the unbounded timeout
  -1: the kernel is asked for the same wait in both cases.
\<close>

lemma sem_take_no_wait_is_forever:
  "nrf_modem_os_sem_take A arg 0 s = nrf_modem_os_sem_take A arg (-1) s"
  by (cases arg) (simp_all add: nrf_modem_os_sem_take_def c_int_id in_int_def)

text \<open>
  The result of a timed mutex lock does not depend on whether the mutex was obtained:
  \<open>nrf_modem_os_mutex_lock\<close> returns 0 on every pool mutex, also when the kernel's timed lock
  reports a timeout (any first component \<open>r\<close>).
\<close>

lemma mutex_lock_reports_success:
  assumes "mdx_mutex_timedlock A (c_int (timeout * 1000)) (nrf_modem_os_mutexes s i) = (r, m)"
    and "timeout \<noteq> -1"
  shows "nrf_modem_os_mutex_lock A (Pool i) timeout s =
    Inr (0, s\<lparr>nrf_modem_os_mutexes := (nrf_modem_os_mutexes s)(i := m)\<rparr>)"
  using assms by (simp add: nrf_modem_os_mutex_lock_def)

end
