(* ===== verification/Handles.thy ===== *)
theory Handles
  imports OS_Properties
begin

text \<open>
  A type discipline for the modem library's use of the semaphore and mutex functions of
  \<^verbatim>\<open>src/src/nrf_modem.c\<close>. The library keeps handles in variables of type \<open>void *\<close> and nothing in
  C stops it from passing a handle that was never initialised, or a mutex where a semaphore is
  expected. A client is a list of calls; a static check types its variables and counts the pool
  elements it takes. Checked clients never pass a bad pointer.
\<close>

section \<open>Clients\<close>

text \<open>
  The value of a handle variable: the address of an element of one of the two static arrays, or
  any other pointer. For the functions of one pool the elements of the other are pointers outside
  the array; which address such a pointer has plays no part there.
\<close>

datatype pointer = Sem_ptr nat | Mtx_ptr nat | Other u32

fun as_sem :: "pointer \<Rightarrow> handle" where
  "as_sem (Sem_ptr i) = Pool i"
| "as_sem (Mtx_ptr i) = Foreign (of_nat i)"
| "as_sem (Other a) = Foreign a"

fun as_mtx :: "pointer \<Rightarrow> handle" where
  "as_mtx (Mtx_ptr i) = Pool i"
| "as_mtx (Sem_ptr i) = Foreign (of_nat i)"
| "as_mtx (Other a) = Foreign a"

fun stored :: "(nat \<Rightarrow> pointer) \<Rightarrow> handle \<Rightarrow> pointer" where
  "stored ptr (Pool i) = ptr i"
| "stored ptr (Foreign a) = Other a"

datatype os_call =
    Sem_init nat u32 u32
  | Sem_give nat
  | Sem_take nat int
  | Mutex_init nat
  | Mutex_lock nat int
  | Mutex_unlock nat

type_synonym ('h, 's, 'm) client = "(nat \<Rightarrow> pointer) \<times> ('h, 's, 'm) os"

fun call :: "('h, 's, 'm) os_api \<Rightarrow> os_call \<Rightarrow> ('h, 's, 'm) client \<Rightarrow> os_error + ('h, 's, 'm) client" where
  "call A (Sem_init v count limit) (vs, s) =
     map_sum id (\<lambda>(h, s'). (vs(v := stored Sem_ptr h), s')) (nrf_modem_os_sem_init A (as_sem (vs v)) count limit s)"
| "call A (Sem_give v) (vs, s) = map_sum id (Pair vs) (nrf_modem_os_sem_give A (as_sem (vs v)) s)"
| "call A (Sem_take v timeout) (vs, s) =
     map_sum id (\<lambda>(r, s'). (vs, s')) (nrf_modem_os_sem_take A (as_sem (vs v)) timeout s)"
| "call A (Mutex_init v) (vs, s) =
     map_sum id (\<lambda>(h, s'). (vs(v := stored Mtx_ptr h), s')) (nrf_modem_os_mutex_init A (as_mtx (vs v)) s)"
| "call A (Mutex_lock v timeout) (vs, s) =
     map_sum id (\<lambda>(r, s'). (vs, s')) (nrf_modem_os_mutex_lock A (as_mtx (vs v)) timeout s)"
| "call A (Mutex_unlock v) (vs, s) =
     map_sum id (\<lambda>(r, s'). (vs, s')) (nrf_modem_os_mutex_unlock A (as_mtx (vs v)) s)"

fun calls :: "('h, 's, 'm) os_api \<Rightarrow> os_call list \<Rightarrow> ('h, 's, 'm) client \<Rightarrow> os_error + ('h, 's, 'm) client" where
  "calls A [] c = Inr c"
| "calls A (x # xs) c = (case call A x c of Inl e \<Rightarrow> Inl e | Inr c' \<Rightarrow> calls A xs c')"

section \<open>Typing\<close>

datatype hty = Semaphore | Mutex

type_synonym hty_env = "nat \<rightharpoonup> hty"

text \<open>
  One call: the types after it, and the pool elements it takes. Initialising a variable that
  already has the right type takes none; initialising one that holds a handle of the other kind
  is rejected.
\<close>

fun check_call :: "os_call \<Rightarrow> hty_env \<Rightarrow> (hty_env \<times> nat \<times> nat) option" where
  "check_call (Sem_init v count limit) T =
     (case T v of None \<Rightarrow> Some (T(v \<mapsto> Semaphore), 1, 0) | Some Semaphore \<Rightarrow> Some (T, 0, 0) | Some Mutex \<Rightarrow> None)"
| "check_call (Mutex_init v) T =
     (case T v of None \<Rightarrow> Some (T(v \<mapsto> Mutex), 0, 1) | Some Mutex \<Rightarrow> Some (T, 0, 0) | Some Semaphore \<Rightarrow> None)"
| "check_call (Sem_give v) T = (if T v = Some Semaphore then Some (T, 0, 0) else None)"
| "check_call (Sem_take v timeout) T = (if T v = Some Semaphore then Some (T, 0, 0) else None)"
| "check_call (Mutex_lock v timeout) T = (if T v = Some Mutex then Some (T, 0, 0) else None)"
| "check_call (Mutex_unlock v) T = (if T v = Some Mutex then Some (T, 0, 0) else None)"

fun check :: "os_call list \<Rightarrow> hty_env \<Rightarrow> (hty_env \<times> nat \<times> nat) option" where
  "check [] T = Some (T, 0, 0)"
| "check (x # xs) T =
     (case check_call x T of
        None \<Rightarrow> None
      | Some (T1, n1, m1) \<Rightarrow> map_option (\<lambda>(T2, n2, m2). (T2, n1 + n2, m1 + m2)) (check xs T1))"

text \<open>
  The variables agree with their types: a typed variable holds the address of an element already
  handed out by the pool of its kind, an untyped one a pointer outside both arrays.
\<close>

fun value_ok :: "nat \<Rightarrow> nat \<Rightarrow> hty option \<Rightarrow> pointer \<Rightarrow> bool" where
  "value_ok n m None p \<longleftrightarrow> (\<exists>a. p = Other a)"
| "value_ok n m (Some Semaphore) p \<longleftrightarrow> (\<exists>i<n. p = Sem_ptr i)"
| "value_ok n m (Some Mutex) p \<longleftrightarrow> (\<exists>i<m. p = Mtx_ptr i)"

definition typed :: "('h, 's, 'm) os_api \<Rightarrow> hty_env \<Rightarrow> ('h, 's, 'm) client \<Rightarrow> bool" where
  "typed A T c \<longleftrightarrow>
     unat (sem_used (snd c)) \<le> NRF_MODEM_OS_SEM_MAX A \<and> unat (mutex_used (snd c)) \<le> NRF_MODEM_OS_MTX_MAX A \<and>
     (\<forall>v. value_ok (unat (sem_used (snd c))) (unat (mutex_used (snd c))) (T v) (fst c v))"

section \<open>Soundness\<close>

lemma value_ok_mono: "value_ok n m t p \<Longrightarrow> n \<le> n' \<Longrightarrow> m \<le> m' \<Longrightarrow> value_ok n' m' t p"
  by (cases "(n, m, t, p)" rule: value_ok.cases) auto

text \<open>The elements a client needs, against what the two pools have left.\<close>

abbreviation fits :: "('h, 's, 'm) os_api \<Rightarrow> nat \<Rightarrow> nat \<Rightarrow> ('h, 's, 'm) os \<Rightarrow> bool" where
  "fits A n m s \<equiv> unat (sem_used s) + n \<le> NRF_MODEM_OS_SEM_MAX A \<and> unat (mutex_used s) + m \<le> NRF_MODEM_OS_MTX_MAX A"

definition safe_step ::
    "('h, 's, 'm) os_api \<Rightarrow> (os_error + ('h, 's, 'm) client) \<Rightarrow> ('h, 's, 'm) os \<Rightarrow> hty_env \<times> nat \<times> nat \<Rightarrow> bool" where
  "safe_step A r s D = (case D of (T', n, m) \<Rightarrow>
     if fits A n m s then
       \<exists>c'. r = Inr c' \<and> typed A T' c' \<and> unat (sem_used (snd c')) = unat (sem_used s) + n \<and>
         unat (mutex_used (snd c')) = unat (mutex_used s) + m
     else \<exists>msg. r = Inl (Kassert msg))"

lemma typed_value:
  "typed A T (vs, s) \<Longrightarrow> value_ok (unat (sem_used s)) (unat (mutex_used s)) (T v) (vs v)"
  by (simp add: typed_def)

lemma typed_update:
  assumes "typed A T (vs, s)" and "unat (sem_used s) \<le> unat (sem_used s')" and "unat (mutex_used s) \<le> unat (mutex_used s')"
    and "unat (sem_used s') \<le> NRF_MODEM_OS_SEM_MAX A" and "unat (mutex_used s') \<le> NRF_MODEM_OS_MTX_MAX A"
    and "value_ok (unat (sem_used s')) (unat (mutex_used s')) t p"
  shows "typed A (T(v := t)) (vs(v := p), s')"
  using assms by (auto simp: typed_def intro: value_ok_mono)

lemma typed_same:
  assumes "typed A T (vs, s)" and "sem_used s' = sem_used s" and "mutex_used s' = mutex_used s"
  shows "typed A T (vs, s')"
  using assms by (simp add: typed_def)

text \<open>
  A pool that leaves the other pool's counter alone; initialising a fresh and an initialised
  variable.
\<close>

locale separate_pool = handle_pool init used cell new cap full_error
  for init :: "'c \<Rightarrow> handle \<Rightarrow> 'st \<Rightarrow> os_error + handle \<times> 'st" and used :: "'st \<Rightarrow> u8"
    and cell :: "'st \<Rightarrow> nat \<Rightarrow> 'v" and new :: "'c \<Rightarrow> 'v" and cap :: nat and full_error :: os_error +
  fixes other :: "'st \<Rightarrow> u8"
  assumes other_same: "init c p s = Inr (h, s') \<Longrightarrow> other s' = other s"
begin

lemma fresh:
  assumes "cap \<le> 255"
  shows "if unat (used s) < cap
    then \<exists>s'. init c (Foreign a) s = Inr (Pool (unat (used s)), s') \<and>
      unat (used s') = Suc (unat (used s)) \<and> other s' = other s
    else init c (Foreign a) s = Inl full_error"
proof (cases "unat (used s) < cap")
  case True
  have "outside cap (Foreign a)" by (simp add: outside_def)
  from alloc [OF this True, of c] obtain s' where s': "init c (Foreign a) s = Inr (Pool (unat (used s)), s')"
    "used s' = used s + 1" by blast
  with True unat_used_Suc [OF True assms] other_same [OF s'(1)] show ?thesis by simp
qed (simp add: full outside_def)

lemma again:
  assumes "i < unat (used s)" and "unat (used s) \<le> cap"
  shows "\<exists>s'. init c (Pool i) s = Inr (Pool i, s') \<and> used s' = used s \<and> other s' = other s"
  using reinit [of i c s] other_same assms by fastforce

end

interpretation sem_client: separate_pool
  "\<lambda>(count, limit) p s. nrf_modem_os_sem_init A p count limit s" sem_used nrf_modem_os_semaphores
  "\<lambda>(count, limit). mdx_sem_init A count" "NRF_MODEM_OS_SEM_MAX A" "Kassert ''Max semaphores reached.''"
  mutex_used for A :: "('h, 's, 'm) os_api"
  by unfold_locales
    (auto simp: nrf_modem_os_sem_init_def Let_def split: prod.splits option.splits if_splits)

interpretation mutex_client: separate_pool
  "\<lambda>_ :: unit. nrf_modem_os_mutex_init A" mutex_used nrf_modem_os_mutexes
  "\<lambda>_. mdx_mutex_init A" "NRF_MODEM_OS_MTX_MAX A" "Kassert ''Max mutex reached.''"
  sem_used for A :: "('h, 's, 'm) os_api"
  by unfold_locales (auto simp: nrf_modem_os_mutex_init_def Let_def split: option.splits if_splits)

lemma typed_caps:
  "typed A T (vs, s) \<Longrightarrow> unat (sem_used s) \<le> NRF_MODEM_OS_SEM_MAX A \<and> unat (mutex_used s) \<le> NRF_MODEM_OS_MTX_MAX A"
  by (simp add: typed_def)

lemma sem_init_typed:
  assumes caps: "NRF_MODEM_OS_SEM_MAX A \<le> 255" and ty: "typed A T (vs, s)"
    and ok: "check_call (Sem_init v count limit) T = Some D"
  shows "safe_step A (call A (Sem_init v count limit) (vs, s)) s D"
proof (cases "T v")
  case None
  then obtain a where a: "vs v = Other a" using typed_value [OF ty, of v] by auto
  note sem_client.fresh [OF caps, of s "(count, limit)" a]
  with None a ok typed_caps [OF ty] show ?thesis
    by (auto simp: safe_step_def split: if_splits intro!: typed_update [OF ty])
next
  case (Some t)
  with ok typed_value [OF ty, of v] obtain i where i: "vs v = Sem_ptr i" "i < unat (sem_used s)" and t: "t = Semaphore"
    by (cases t) auto
  from sem_client.again [OF i(2), of A "(count, limit)"] Some t i ok typed_caps [OF ty] show ?thesis
    by (auto simp: safe_step_def fun_upd_idem intro: typed_same [OF ty])
qed

lemma mutex_init_typed:
  assumes caps: "NRF_MODEM_OS_MTX_MAX A \<le> 255" and ty: "typed A T (vs, s)"
    and ok: "check_call (Mutex_init v) T = Some D"
  shows "safe_step A (call A (Mutex_init v) (vs, s)) s D"
proof (cases "T v")
  case None
  then obtain a where a: "vs v = Other a" using typed_value [OF ty, of v] by auto
  note mutex_client.fresh [OF caps, of s a]
  with None a ok typed_caps [OF ty] show ?thesis
    by (auto simp: safe_step_def split: if_splits intro!: typed_update [OF ty])
next
  case (Some t)
  with ok typed_value [OF ty, of v] obtain i where i: "vs v = Mtx_ptr i" "i < unat (mutex_used s)" and t: "t = Mutex"
    by (cases t) auto
  from mutex_client.again [OF i(2), of A] Some t i ok typed_caps [OF ty] show ?thesis
    by (auto simp: safe_step_def fun_upd_idem intro: typed_same [OF ty])
qed

text \<open>The other calls use an initialised variable and take nothing.\<close>

lemma use_typed:
  assumes ty: "typed A T (vs, s)" and r: "r = Inr (vs, s')"
    and "sem_used s' = sem_used s" and "mutex_used s' = mutex_used s"
  shows "safe_step A r s (T, 0, 0)"
  using typed_same [OF assms(1,3,4)] assms typed_caps [OF ty] by (simp add: safe_step_def)

lemma sem_use_typed:
  assumes ty: "typed A T (vs, s)" and v: "T v = Some Semaphore"
  shows "safe_step A (call A (Sem_give v) (vs, s)) s (T, 0, 0)"
    and "safe_step A (call A (Sem_take v timeout) (vs, s)) s (T, 0, 0)"
  using typed_value [OF ty, of v] v
  by (auto intro!: use_typed [OF ty] simp: nrf_modem_os_sem_give_def nrf_modem_os_sem_take_def Let_def split_beta)

lemma mutex_use_typed:
  assumes ty: "typed A T (vs, s)" and v: "T v = Some Mutex"
  shows "safe_step A (call A (Mutex_lock v timeout) (vs, s)) s (T, 0, 0)"
    and "safe_step A (call A (Mutex_unlock v) (vs, s)) s (T, 0, 0)"
  using typed_value [OF ty, of v] v
  by (auto intro!: use_typed [OF ty] simp: nrf_modem_os_mutex_lock_def nrf_modem_os_mutex_unlock_def Let_def)

lemma call_typed:
  assumes "NRF_MODEM_OS_SEM_MAX A \<le> 255" "NRF_MODEM_OS_MTX_MAX A \<le> 255" "typed A T (vs, s)"
    and "check_call x T = Some D"
  shows "safe_step A (call A x (vs, s)) s D"
proof (cases x)
  case (Sem_init v count limit)
  with assms show ?thesis using sem_init_typed by blast
next
  case (Mutex_init v)
  with assms show ?thesis using mutex_init_typed by blast
qed (use assms sem_use_typed [OF assms(3)] mutex_use_typed [OF assms(3)] in \<open>auto split: if_splits\<close>)

lemma calls_typed:
  assumes "NRF_MODEM_OS_SEM_MAX A \<le> 255" "NRF_MODEM_OS_MTX_MAX A \<le> 255"
  shows "typed A T (vs, s) \<Longrightarrow> check xs T = Some D \<Longrightarrow> safe_step A (calls A xs (vs, s)) s D"
proof (induction xs arbitrary: T vs s D)
  case Nil
  then show ?case by (auto simp: safe_step_def typed_def)
next
  case (Cons x xs)
  from Cons.prems(2) obtain T1 n1 m1 T2 n2 m2 where D: "check_call x T = Some (T1, n1, m1)"
    "check xs T1 = Some (T2, n2, m2)" "D = (T2, n1 + n2, m1 + m2)" by (auto split: option.splits)
  note one = call_typed [OF assms Cons.prems(1) D(1)]
  show ?case
  proof (cases "fits A n1 m1 s")
    case True
    with one obtain vs1 s1 where s1: "call A x (vs, s) = Inr (vs1, s1)" "typed A T1 (vs1, s1)"
      "unat (sem_used s1) = unat (sem_used s) + n1" "unat (mutex_used s1) = unat (mutex_used s) + m1"
      by (auto simp: safe_step_def)
    from Cons.IH [OF s1(2) D(2)] s1 D(3) show ?thesis by (auto simp: safe_step_def add.assoc)
  next
    case False
    with one D(3) show ?thesis by (auto simp: safe_step_def)
  qed
qed

section \<open>Properties\<close>

text \<open>
  C9: type safety of the handles. A client that passes the check never passes a bad pointer: when
  the elements it needs are left in both pools, all its calls return, every variable again holds
  a handle of its type and exactly these elements were taken; when they are not, the client stops
  in an assertion of one of the initialisation functions. The hypothesis on the modem library's
  constants is that the 8-bit counters can hold them.
\<close>

theorem handles_type_safe:
  assumes "NRF_MODEM_OS_SEM_MAX A \<le> 255" and "NRF_MODEM_OS_MTX_MAX A \<le> 255"
    and "typed A T (vs, s)" and "check xs T = Some (T', n, m)"
  shows "if unat (sem_used s) + n \<le> NRF_MODEM_OS_SEM_MAX A \<and> unat (mutex_used s) + m \<le> NRF_MODEM_OS_MTX_MAX A
    then \<exists>vs' s'. calls A xs (vs, s) = Inr (vs', s') \<and> typed A T' (vs', s') \<and>
      unat (sem_used s') = unat (sem_used s) + n \<and> unat (mutex_used s') = unat (mutex_used s) + m
    else \<exists>msg. calls A xs (vs, s) = Inl (Kassert msg)"
  using calls_typed [OF assms] by (auto simp: safe_step_def)

text \<open>A client with one semaphore and one mutex, and one with a semaphore too many.\<close>

theorem handles_type_safe_witness:
  "(\<exists>vs' s'. calls ring_api [Sem_init 0 1 1, Mutex_init 1, Mutex_lock 1 (-1), Sem_take 0 5, Sem_give 0,
       Mutex_unlock 1, Sem_init 0 0 1] (\<lambda>_. Other 0, os0) = Inr (vs', s') \<and> unat (sem_used s') = 1 \<and>
       unat (mutex_used s') = 1) \<and>
   (\<exists>msg. calls ring_api [Sem_init 0 1 1, Sem_init 1 1 1, Sem_init 2 1 1, Sem_init 3 1 1, Sem_init 4 1 1]
      (\<lambda>_. Other 0, os0) = Inl (Kassert msg))"
proof -
  have t: "typed ring_api Map.empty (\<lambda>_. Other 0, os0)" by (simp add: typed_def os0_def)
  have "check [Sem_init 0 1 1, Mutex_init 1, Mutex_lock 1 (-1), Sem_take 0 5, Sem_give 0, Mutex_unlock 1,
      Sem_init 0 0 1] Map.empty = Some ([0 \<mapsto> Semaphore, 1 \<mapsto> Mutex], 1, 1)" by simp
  from handles_type_safe [OF _ _ t this] have 1: "\<exists>vs' s'. calls ring_api [Sem_init 0 1 1, Mutex_init 1,
      Mutex_lock 1 (-1), Sem_take 0 5, Sem_give 0, Mutex_unlock 1, Sem_init 0 0 1] (\<lambda>_. Other 0, os0) =
      Inr (vs', s') \<and> unat (sem_used s') = 1 \<and> unat (mutex_used s') = 1"
    by (simp add: os0_def del: calls.simps) blast
  have "check [Sem_init 0 1 1, Sem_init 1 1 1, Sem_init 2 1 1, Sem_init 3 1 1, Sem_init 4 1 1] Map.empty =
      Some ([0 \<mapsto> Semaphore, 1 \<mapsto> Semaphore, 2 \<mapsto> Semaphore, 3 \<mapsto> Semaphore, 4 \<mapsto> Semaphore], 5, 0)" by simp
  from handles_type_safe [OF _ _ t this] 1 show ?thesis by (simp add: os0_def del: calls.simps)
qed

end
