(* ===== verification/Preemption.thy ===== *)
theory Preemption
  imports OS_Properties
begin

text \<open>
  Notification without atomicity. \<open>nrf_modem_os_event_notify\<close> of \<^verbatim>\<open>src/src/nrf_modem.c\<close> walks the list
  of sleeping threads outside any critical section; when it runs in a thread rather than in the
  interrupt handler, waiting threads may enter and leave the list between two steps of the walk.
  The walk is split into its steps, which are interleaved with entering and leaving threads. As
  long as the thread under the cursor stays, the walk reaches every thread that stays; once that
  thread may leave and wait again, all the others can be missed.
\<close>

section \<open>The walk in steps\<close>

text \<open>
  The loop \<open>for (td = td_first(); td != NULL; td = td_next(td))\<close> stands before the body for a thread,
  behind it, or has ended.
\<close>

datatype cursor = At addr | Visited addr | Over

definition cursor_of :: "addr option \<Rightarrow> cursor" where
  "cursor_of td = (case td of None \<Rightarrow> Over | Some t \<Rightarrow> At t)"

definition visit_td :: "('h, 's, 'm) os_api \<Rightarrow> u32 \<Rightarrow> addr \<Rightarrow> ('h, 's, 'm) os \<Rightarrow> ('h, 's, 'm) os" where
  "visit_td A context td s = (if td_context s td = context \<or> context = 0 then post_td A td s else s)"

fun walk :: "('h, 's, 'm) os_api \<Rightarrow> u32 \<Rightarrow> ('h, 's, 'm) os \<times> cursor \<Rightarrow> ('h, 's, 'm) os \<times> cursor" where
  "walk A context (s, At t) = (visit_td A context t s, Visited t)"
| "walk A context (s, Visited t) = (s, cursor_of (td_next A t s))"
| "walk A context (s, Over) = (s, Over)"

lemma walk_Over: "(walk A context ^^ n) (s, Over) = (s, Over)"
  by (induction n) simp_all

text \<open>Undisturbed, the steps are the loop: one ends exactly when the other does, with the same result.\<close>

lemma loop_walks:
  assumes "for_each_td A (visit_td A context) td s = Some s'"
  shows "\<exists>n. (walk A context ^^ n) (s, cursor_of td) = (s', Over)"
proof -
  have "visit_td A context = visit_td A context \<longrightarrow> (\<exists>n. (walk A context ^^ n) (s, cursor_of td) = (s', Over))"
  proof (rule for_each_td.raw_induct [where P = "\<lambda>A f td s s'. f = visit_td A context \<longrightarrow>
      (\<exists>n. (walk A context ^^ n) (s, cursor_of td) = (s', Over))", OF _ assms], rule impI)
    fix rec f td s s' and A :: "('a, 'b, 'c) os_api"
    assume IH: "\<And>A f td s s'. rec A f td s = Some s' \<Longrightarrow> f = visit_td A context \<longrightarrow>
        (\<exists>n. (walk A context ^^ n) (s, cursor_of td) = (s', Over))"
      and run: "(case td of None \<Rightarrow> Some s | Some t \<Rightarrow> let s' = f t s in rec A f (td_next A t s') s') = Some s'"
      and f: "f = visit_td A context"
    show "\<exists>n. (walk A context ^^ n) (s, cursor_of td) = (s', Over)"
    proof (cases td)
      case None
      with run show ?thesis by (auto simp: cursor_of_def intro: exI [of _ 0])
    next
      case (Some t)
      let ?s = "visit_td A context t s"
      from run Some f have "rec A f (td_next A t ?s) ?s = Some s'" by (simp add: Let_def)
      from IH [OF this] f obtain n where "(walk A context ^^ n) (?s, cursor_of (td_next A t ?s)) = (s', Over)" by blast
      then show ?thesis using Some by (intro exI [of _ "Suc (Suc n)"]) (simp add: funpow_swap1 cursor_of_def)
    qed
  qed
  then show ?thesis by simp
qed

lemma walks_loop:
  "(walk A context ^^ n) (s, cursor_of td) = (s', Over) \<Longrightarrow> for_each_td A (visit_td A context) td s = Some s'"
proof (induction n arbitrary: td s rule: induct_nat_012)
  case 0
  then show ?case by (auto simp: cursor_of_def for_each_td.simps split: option.splits)
next
  case 1
  then show ?case by (auto simp: cursor_of_def for_each_td.simps split: option.splits)
next
  case (ge2 n)
  show ?case
  proof (cases td)
    case None
    with ge2.prems show ?thesis by (simp add: cursor_of_def walk_Over for_each_td.simps)
  next
    case (Some t)
    from ge2.prems have "(walk A context ^^ n) (walk A context (walk A context (s, cursor_of td))) = (s', Over)"
      by (simp add: funpow_swap1)
    then have "(walk A context ^^ n) (visit_td A context t s, cursor_of (td_next A t (visit_td A context t s))) = (s', Over)"
      using Some by (simp add: cursor_of_def)
    from ge2.IH(1) [OF this] Some show ?thesis by (simp add: for_each_td.simps [of A _ "Some t"] Let_def)
  qed
qed

section \<open>Interleaving\<close>

text \<open>
  The walk of one notification, with threads entering and leaving between its steps until it ends.
  The waiters, with the number of wake-ups each has got, and the set of addresses that have been
  left are carried along. When \<open>stay\<close> holds, the thread under the cursor does not leave.
\<close>

definition noted :: "u32 \<Rightarrow> waiter \<Rightarrow> waiter" where
  "noted context w = (if w_context w = context \<or> context = 0 then w\<lparr>w_posts := Suc (w_posts w)\<rparr> else w)"

fun under :: "cursor \<Rightarrow> addr option" where
  "under (At t) = Some t"
| "under (Visited t) = Some t"
| "under Over = None"

type_synonym ('h, 's, 'm) walking = "('h, 's, 'm) os \<times> cursor \<times> waiter list \<times> addr set"

inductive walk_step ::
    "('h, 's, 'm) os_api \<Rightarrow> u32 \<Rightarrow> bool \<Rightarrow> ('h, 's, 'm) walking \<Rightarrow> ('h, 's, 'm) walking \<Rightarrow> bool"
  for A ctxt stay where
  visit: "walk_step A ctxt stay (s, At t, ws, gone)
     (fst (walk A ctxt (s, At t)), Visited t, map (\<lambda>w. if w_td w = t then noted ctxt w else w) ws, gone)"
| advance: "walk_step A ctxt stay (s, Visited t, ws, gone) (s, snd (walk A ctxt (s, Visited t)), ws, gone)"
| enter: "c \<noteq> Over \<Longrightarrow> td \<noteq> sleeping_thread_list \<Longrightarrow> td \<notin> w_td ` set ws \<Longrightarrow>
     timedwait_enter A True ctxt' val td s = (Block tmout, s') \<Longrightarrow>
     walk_step A ctxt stay (s, c, ws, gone) (s', c, spec_enter td ctxt' ws, gone)"
| leave: "c \<noteq> Over \<Longrightarrow> w \<in> set ws \<Longrightarrow> (stay \<Longrightarrow> under c \<noteq> Some (w_td w)) \<Longrightarrow>
     walk_step A ctxt stay (s, c, ws, gone)
       (snd (timedwait_leave A initialized val tmout (w_td w) s), c, spec_leave (w_td w) ws, insert (w_td w) gone)"

text \<open>
  The waiters are the ones already passed, followed by the ones to come; the cursor is at the
  border. \<open>ws0\<close> are the waiters at the start.
\<close>

definition border :: "cursor \<Rightarrow> waiter list \<Rightarrow> waiter list \<Rightarrow> bool" where
  "border c done todo = (case c of
     At t \<Rightarrow> (\<exists>w rest. todo = w # rest \<and> w_td w = t)
   | Visited t \<Rightarrow> (\<exists>w rest. done = rest @ [w] \<and> w_td w = t)
   | Over \<Rightarrow> todo = [])"

definition progress :: "u32 \<Rightarrow> waiter list \<Rightarrow> addr set \<Rightarrow> waiter list \<Rightarrow> waiter list \<Rightarrow> bool" where
  "progress ctxt ws0 gone passed todo \<longleftrightarrow>
     (\<forall>w0 \<in> set ws0. w_td w0 \<notin> gone \<longrightarrow> w0 \<in> set todo \<or> noted ctxt w0 \<in> set passed) \<and>
     (\<forall>w \<in> set todo. w \<in> set ws0 \<or> w_posts w = 0) \<and>
     (\<forall>w \<in> set passed. \<exists>w0. (w0 \<in> set ws0 \<or> w_posts w0 = 0) \<and> w = noted ctxt w0)"

definition walk_inv ::
    "('h, 's, 'm) os_api \<Rightarrow> (addr \<Rightarrow> 'h \<Rightarrow> addr list \<Rightarrow> bool) \<Rightarrow> u32 \<Rightarrow> waiter list \<Rightarrow> ('h, 's, 'm) walking \<Rightarrow> bool" where
  "walk_inv A rep ctxt ws0 W = (case W of (s, c, ws, gone) \<Rightarrow> os_rel A rep s ws \<and>
     (\<exists>passed todo. ws = passed @ todo \<and> border c passed todo \<and> progress ctxt ws0 gone passed todo))"

lemma walk_invI:
  "os_rel A rep s ws \<Longrightarrow> ws = passed @ todo \<Longrightarrow> border c passed todo \<Longrightarrow> progress ctxt ws0 gone passed todo \<Longrightarrow>
     walk_inv A rep ctxt ws0 (s, c, ws, gone)"
  unfolding walk_inv_def by auto

lemma walk_invE:
  assumes "walk_inv A rep ctxt ws0 (s, c, ws, gone)"
  obtains passed todo where "os_rel A rep s ws" "ws = passed @ todo" "border c passed todo"
    "progress ctxt ws0 gone passed todo"
  using assms unfolding walk_inv_def by auto

lemma noted_td [simp]: "w_td (noted context w) = w_td w"
  by (simp add: noted_def)

context entry_list
begin

lemma start_inv:
  assumes "os_rel A rep s ws"
  shows "walk_inv A rep ctxt ws (s, cursor_of (td_first A s), ws, {})"
proof (rule walk_invI [OF assms])
  have "td_first A s = (case map w_td ws of [] \<Rightarrow> None | t # _ \<Rightarrow> Some t)"
    using assms by (intro td_first_eq) (simp add: os_rel_def)
  then show "border (cursor_of (td_first A s)) [] ws"
    by (cases ws) (simp_all add: border_def cursor_of_def)
qed (simp_all add: progress_def)

lemma visit_rel:
  assumes "os_rel A rep s ws"
  shows "os_rel A rep (visit_td A ctxt t s) (map (\<lambda>w. if w_td w = t then noted ctxt w else w) ws)"
proof -
  have sel: "td_context (visit_td A ctxt t s) = td_context s" "os_heap (visit_td A ctxt t s) = os_heap s"
    "td_sem (visit_td A ctxt t s) u =
       (if u = t \<and> (td_context s t = ctxt \<or> ctxt = 0) then mdx_sem_post A (td_sem s u) else td_sem s u)" for u
    by (simp_all add: visit_td_def post_td_def)
  have tds: "map w_td (map (\<lambda>w. if w_td w = t then noted ctxt w else w) ws) = map w_td ws" by simp
  have "td_context s (w_td w') = w_context w' \<and>
      td_sem (visit_td A ctxt t s) (w_td w') = (mdx_sem_post A ^^ w_posts w') (mdx_sem_init A 0)"
    if "w' \<in> set (map (\<lambda>w. if w_td w = t then noted ctxt w else w) ws)" for w'
  proof -
    from that obtain w where "w \<in> set ws" and w': "w' = (if w_td w = t then noted ctxt w else w)" by auto
    with assms have "td_context s (w_td w) = w_context w"
      "td_sem s (w_td w) = (mdx_sem_post A ^^ w_posts w) (mdx_sem_init A 0)" by (auto simp: os_rel_def)
    then show ?thesis unfolding sel w' by (cases "w_td w = t") (simp_all add: noted_def)
  qed
  with assms show ?thesis unfolding os_rel_def sel tds by blast
qed

lemma visit_inv:
  assumes "walk_inv A rep ctxt ws0 (s, At t, ws, gone)"
  shows "walk_inv A rep ctxt ws0
    (visit_td A ctxt t s, Visited t, map (\<lambda>w. if w_td w = t then noted ctxt w else w) ws, gone)"
proof -
  from assms obtain passed w rest where ws: "ws = passed @ w # rest" "w_td w = t" and rel: "os_rel A rep s ws"
    and p: "progress ctxt ws0 gone passed (w # rest)"
    by (auto elim!: walk_invE simp: border_def)
  have "w_td w' \<noteq> t" if "w' \<in> set passed \<union> set rest" for w'
    using os_rel_distinct [OF rel] that by (auto simp: ws)
  then have "map (\<lambda>w. if w_td w = t then noted ctxt w else w) ws = (passed @ [noted ctxt w]) @ rest"
    using ws by (auto intro!: map_idI)
  then show ?thesis using p ws(2)
    by (intro walk_invI [where passed = "passed @ [noted ctxt w]" and todo = rest, OF visit_rel [OF rel]])
      (auto simp: border_def progress_def)
qed

lemma next_border:
  assumes "os_rel A rep s (passed @ w # todo)"
  shows "border (cursor_of (td_next A (w_td w) s)) (passed @ [w]) todo"
    and "cursor_of (td_next A (w_td w) s) \<noteq> Visited t"
proof -
  have "td_next A (w_td w) s = (case map w_td todo of [] \<Rightarrow> None | u # _ \<Rightarrow> Some u)"
    using assms by (intro td_next_eq [of _ "map w_td passed"]) (simp add: os_rel_def)
  then show "border (cursor_of (td_next A (w_td w) s)) (passed @ [w]) todo"
    "cursor_of (td_next A (w_td w) s) \<noteq> Visited t"
    by (cases todo; simp add: border_def cursor_of_def)+
qed

lemma advance_inv:
  assumes "walk_inv A rep ctxt ws0 (s, Visited t, ws, gone)"
  shows "walk_inv A rep ctxt ws0 (s, cursor_of (td_next A t s), ws, gone)"
proof -
  from assms obtain passed w todo where ws: "ws = passed @ w # todo" "w_td w = t" and rel: "os_rel A rep s ws"
    and p: "progress ctxt ws0 gone (passed @ [w]) todo"
    by (auto elim!: walk_invE simp: border_def)
  with next_border(1) [of s passed w todo] show ?thesis by (intro walk_invI) auto
qed

lemma enter_inv:
  assumes "walk_inv A rep ctxt ws0 (s, c, ws, gone)" and "c \<noteq> Over"
    and td: "td \<noteq> sleeping_thread_list" "td \<notin> w_td ` set ws" "timedwait_enter A True ctxt' val td s = (Block tmout, s')"
  shows "walk_inv A rep ctxt ws0 (s', c, spec_enter td ctxt' ws, gone)"
proof -
  from assms(1) obtain passed todo where ws: "ws = passed @ todo" and b: "border c passed todo"
    and rel: "os_rel A rep s ws" and p: "progress ctxt ws0 gone passed todo" by (rule walk_invE)
  let ?todo = "todo @ [\<lparr>w_td = td, w_context = ctxt', w_posts = 0\<rparr>]"
  have "border c passed ?todo" using b assms(2) by (auto simp: border_def split: cursor.splits)
  moreover have "progress ctxt ws0 gone passed ?todo" using p by (auto simp: progress_def)
  ultimately show ?thesis using enter_sim [OF rel td] ws
    by (intro walk_invI) (auto simp: spec_enter_def)
qed

lemma leave_inv:
  assumes "walk_inv A rep ctxt ws0 (s, c, ws, gone)" and w: "w \<in> set ws" and stay: "under c \<noteq> Some (w_td w)"
  shows "walk_inv A rep ctxt ws0 (snd (timedwait_leave A initialized val tmout (w_td w) s), c,
    spec_leave (w_td w) ws, insert (w_td w) gone)"
proof -
  from assms(1) obtain passed todo where ws: "ws = passed @ todo" and b: "border c passed todo"
    and rel: "os_rel A rep s ws" and p: "progress ctxt ws0 gone passed todo" by (rule walk_invE)
  let ?keep = "spec_leave (w_td w)"
  have "border c (?keep passed) (?keep todo)"
    using b stay by (auto simp: border_def spec_leave_def split: cursor.splits)
  moreover have "progress ctxt ws0 (insert (w_td w) gone) (?keep passed) (?keep todo)"
    using p by (auto simp: progress_def spec_leave_def)
  ultimately show ?thesis using leave_sim [OF rel w] ws
    by (intro walk_invI) (auto simp: spec_leave_def)
qed

lemma walk_step_inv:
  assumes "walk_step A ctxt True W W'" and "walk_inv A rep ctxt ws0 W"
  shows "walk_inv A rep ctxt ws0 W'"
  using assms
  by (induction rule: walk_step.induct) (auto intro: visit_inv advance_inv enter_inv leave_inv)

lemma walk_steps_inv:
  assumes "(walk_step A ctxt True)\<^sup>*\<^sup>* W W'" and "walk_inv A rep ctxt ws0 W"
  shows "walk_inv A rep ctxt ws0 W'"
  using assms by (induction rule: rtranclp_induct) (auto intro: walk_step_inv)

text \<open>Left alone, the walk ends, whatever happened before.\<close>

lemma walk_finishes:
  assumes "walk_inv A rep ctxt ws0 (s, c, ws, gone)"
  shows "\<exists>s' ws'. (walk_step A ctxt True)\<^sup>*\<^sup>* (s, c, ws, gone) (s', Over, ws', gone)"
proof -
  from assms obtain passed todo where b: "ws = passed @ todo" "border c passed todo" by (rule walk_invE)
  with assms show ?thesis
  proof (induction "2 * length todo + (case c of Visited _ \<Rightarrow> 1 | _ \<Rightarrow> 0)" arbitrary: s c ws passed todo rule: less_induct)
    case less
    show ?case
    proof (cases c)
      case (At t)
      let ?f = "\<lambda>w. if w_td w = t then noted ctxt w else w"
      let ?W = "(visit_td A ctxt t s, Visited t, map ?f ws, gone)"
      obtain w rest where w: "todo = w # rest" "w_td w = t" using less.prems(3) At by (auto simp: border_def)
      have inv: "walk_inv A rep ctxt ws0 ?W" using less.prems(1) At by (intro visit_inv) simp
      have "border (Visited t) (map ?f (passed @ [w])) (map ?f rest)" using w by (simp add: border_def)
      then have "\<exists>s' ws'. (walk_step A ctxt True)\<^sup>*\<^sup>* ?W (s', Over, ws', gone)"
        using w less.prems(2) At by (intro less.hyps [OF _ inv]) simp_all
      moreover have "walk_step A ctxt True (s, c, ws, gone) ?W"
        using walk_step.visit [of A ctxt True s t ws gone] At by simp
      ultimately show ?thesis by (blast intro: converse_rtranclp_into_rtranclp)
    next
      case (Visited t)
      let ?W = "(s, cursor_of (td_next A t s), ws, gone)"
      obtain w rest where w: "passed = rest @ [w]" "w_td w = t" using less.prems(3) Visited by (auto simp: border_def)
      have inv: "walk_inv A rep ctxt ws0 ?W" using less.prems(1) Visited by (intro advance_inv) simp
      have "os_rel A rep s (rest @ w # todo)" using less.prems(1,2) w by (auto elim: walk_invE)
      from next_border [OF this] have "\<exists>s' ws'. (walk_step A ctxt True)\<^sup>*\<^sup>* ?W (s', Over, ws', gone)"
        using w less.prems(2) Visited by (intro less.hyps [OF _ inv]) (auto split: cursor.split)
      moreover have "walk_step A ctxt True (s, c, ws, gone) ?W"
        using walk_step.advance [of A ctxt True s t ws gone] Visited by simp
      ultimately show ?thesis by (blast intro: converse_rtranclp_into_rtranclp)
    qed blast
  qed
qed

lemma walk_missed:
  assumes rel: "os_rel A rep s (w # ws)"
  shows "\<exists>s'. (walk_step A ctxt False)\<^sup>*\<^sup>* (s, cursor_of (td_first A s), w # ws, {})
      (s', Over, ws @ [\<lparr>w_td = w_td w, w_context = ctxt', w_posts = 0\<rparr>], {w_td w})"
proof -
  let ?t = "w_td w" and ?step = "walk_step A ctxt False"
  have first: "cursor_of (td_first A s) = At ?t"
    using rel td_first_eq [of s "map w_td (w # ws)"] by (simp add: os_rel_def cursor_of_def)
  have d: "?t \<notin> w_td ` set ws" using os_rel_distinct [OF rel] by simp
  have t: "?t \<noteq> sleeping_thread_list"
    using rel rep_ring [of sleeping_thread_list "os_heap s" "map w_td (w # ws)"] by (simp add: os_rel_def)
  define s1 where "s1 = visit_td A ctxt ?t s"
  have ws1: "map (\<lambda>w'. if w_td w' = ?t then noted ctxt w' else w') (w # ws) = noted ctxt w # ws"
    using d by (auto intro!: map_idI) (metis image_eqI)
  have 1: "?step (s, At ?t, w # ws, {}) (s1, Visited ?t, noted ctxt w # ws, {})"
    using walk_step.visit [of A ctxt False s ?t "w # ws" "{}"] by (simp only: s1_def ws1 walk.simps fst_conv)
  have rel1: "os_rel A rep s1 (noted ctxt w # ws)" using visit_rel [OF rel, of ctxt ?t] by (simp only: ws1 s1_def)
  define s2 where "s2 = snd (timedwait_leave A True 1 0 ?t s1)"
  have ws2: "spec_leave ?t (noted ctxt w # ws) = ws" using d by (auto simp: spec_leave_def intro!: filter_True) (metis image_eqI)
  have 2: "?step (s1, Visited ?t, noted ctxt w # ws, {}) (s2, Visited ?t, ws, {?t})"
    using walk_step.leave [of "Visited ?t" "noted ctxt w" "noted ctxt w # ws" False A ctxt s1 "{}" True 1 0]
    by (simp add: ws2 s2_def)
  have rel2: "os_rel A rep s2 ws" using leave_sim [OF rel1, of "noted ctxt w" True 1 0] by (simp add: ws2 s2_def)
  obtain s3 where e: "timedwait_enter A True ctxt' 1 ?t s2 = (Block (c_int 1000), s3)"
    by (simp add: timedwait_enter_def Let_def)
  have 3: "?step (s2, Visited ?t, ws, {?t}) (s3, Visited ?t, spec_enter ?t ctxt' ws, {?t})"
    by (rule walk_step.enter [OF _ t d e]) simp
  have "cursor_of (td_next A ?t s3) = Over"
    using next_border [of s3 ws "\<lparr>w_td = ?t, w_context = ctxt', w_posts = 0\<rparr>" "[]"] enter_sim [OF rel2 t d e]
    by (auto simp: spec_enter_def border_def split: cursor.splits)
  then have 4: "?step (s3, Visited ?t, spec_enter ?t ctxt' ws, {?t}) (s3, Over, spec_enter ?t ctxt' ws, {?t})"
    using walk_step.advance [of A ctxt False s3 ?t "spec_enter ?t ctxt' ws" "{?t}"] by simp
  from 1 2 3 4 show ?thesis unfolding first spec_enter_def
    by (blast intro: converse_rtranclp_into_rtranclp)
qed

end

section \<open>Properties\<close>

text \<open>
  The walk of \<open>nrf_modem_os_event_notify\<close>, taken step by step, is the function: undisturbed it
  ends exactly when the function returns, in the same state.
\<close>

lemma walk_is_notify:
  "nrf_modem_os_event_notify A ctxt s = Some s' \<longleftrightarrow>
     (\<exists>n. (walk A ctxt ^^ n) (s, cursor_of (td_first A s)) = (s', Over))"
proof -
  have "visit_td A ctxt = (\<lambda>td s. if td_context s td = ctxt \<or> ctxt = 0 then post_td A td s else s)"
    by (simp add: fun_eq_iff visit_td_def)
  then have "nrf_modem_os_event_notify A ctxt s = for_each_td A (visit_td A ctxt) (td_first A s) s"
    by (simp add: nrf_modem_os_event_notify_def)
  then show ?thesis using loop_walks walks_loop by metis
qed

text \<open>After its message \<open>nrf_modem_os_shutdown\<close> makes the walk of a notification with context 0.\<close>

lemma walk_is_shutdown:
  assumes "s0 = os_event (Printf ''nrf_modem_os_shutdown'' []) s"
  shows "nrf_modem_os_shutdown A s = Some s' \<longleftrightarrow> (\<exists>n. (walk A 0 ^^ n) (s0, cursor_of (td_first A s0)) = (s', Over))"
  using walk_is_notify [of A 0 s0 s'] assms
  by (simp add: nrf_modem_os_event_notify_def nrf_modem_os_shutdown_def Let_def)

text \<open>
  C16: a notification that is interrupted between its steps by threads going to sleep and waking up
  still does its work, as long as the thread it is looking at stays on the list: when it ends, every
  thread that was asleep at the start and has not left has been posted once if its context matches,
  and so has every other thread on the list; no thread is posted otherwise. Whatever has happened,
  it ends once it is left alone.
\<close>

theorem interrupted_walk:
  assumes "entry_list A rep" and "os_rel A rep s ws0"
    and "(walk_step A ctxt True)\<^sup>*\<^sup>* (s, cursor_of (td_first A s), ws0, {}) (s', c, ws, gone)"
  shows "(c = Over \<longrightarrow> os_rel A rep s' ws \<and>
      (\<forall>w0 \<in> set ws0. w_td w0 \<notin> gone \<longrightarrow> noted ctxt w0 \<in> set ws) \<and>
      (\<forall>w \<in> set ws. \<exists>w0. (w0 \<in> set ws0 \<or> w_posts w0 = 0) \<and> w = noted ctxt w0)) \<and>
    (\<exists>s'' ws''. (walk_step A ctxt True)\<^sup>*\<^sup>* (s', c, ws, gone) (s'', Over, ws'', gone))"
proof -
  have "walk_inv A rep ctxt ws0 (s', c, ws, gone)"
    by (rule entry_list.walk_steps_inv [OF assms(1,3) entry_list.start_inv [OF assms(1,2)]])
  then show ?thesis using entry_list.walk_finishes [OF assms(1)]
    by (auto elim!: walk_invE simp: border_def progress_def)
qed

text \<open>A second thread goes to sleep before the walk has looked at the first; both are posted.\<close>

theorem interrupted_walk_witness:
  "\<exists>s' ws. (walk_step ring_api 7 True)\<^sup>*\<^sup>* (os_asleep, At 5, [waiter5 0], {}) (s', Over, ws, {}) \<and>
     waiter5 1 \<in> set ws"
proof -
  have first: "cursor_of (td_first ring_api os_asleep) = At 5"
    using ring_list.td_first_eq [of os_asleep "[5]"] os_asleep_rel by (simp add: os_rel_def cursor_of_def)
  obtain s1 where e: "timedwait_enter ring_api True 7 100 6 os_asleep = (Block (c_int 100000), s1)"
    by (simp add: timedwait_enter_def Let_def)
  have "walk_step ring_api 7 True (os_asleep, At 5, [waiter5 0], {}) (s1, At 5, spec_enter 6 7 [waiter5 0], {})"
    by (rule walk_step.enter [OF _ _ _ e]) (simp_all add: sleeping_thread_list_def)
  then have 1: "(walk_step ring_api 7 True)\<^sup>*\<^sup>* (os_asleep, At 5, [waiter5 0], {}) (s1, At 5, spec_enter 6 7 [waiter5 0], {})"
    by (rule r_into_rtranclp)
  note walk = interrupted_walk [OF ring_list.entry_list_axioms os_asleep_rel, of 7, unfolded first]
  from walk [OF 1] obtain s' ws where 2: "(walk_step ring_api 7 True)\<^sup>*\<^sup>* (s1, At 5, spec_enter 6 7 [waiter5 0], {}) (s', Over, ws, {})"
    by blast
  with 1 have run: "(walk_step ring_api 7 True)\<^sup>*\<^sup>* (os_asleep, At 5, [waiter5 0], {}) (s', Over, ws, {})"
    by (rule rtranclp_trans)
  with walk [OF run] show ?thesis by (auto simp: noted_def)
qed

text \<open>
  C17: the walk is not safe against the thread under its cursor leaving. If the first sleeping thread,
  just posted, runs before the walk goes on, leaves the list and waits again, then the walk ends
  behind it: none of the threads that slept after it is posted, although the same notification without
  the interruption posts every one that matches.
\<close>

theorem preempted_walk_misses:
  assumes "entry_list A rep" and "os_rel A rep s (w # ws)"
  shows "(\<exists>s'. (walk_step A ctxt False)\<^sup>*\<^sup>* (s, cursor_of (td_first A s), w # ws, {})
      (s', Over, ws @ [\<lparr>w_td = w_td w, w_context = ctxt', w_posts = 0\<rparr>], {w_td w})) \<and>
    (\<exists>s''. nrf_modem_os_event_notify A ctxt s = Some s'' \<and> os_rel A rep s'' (map (noted ctxt) (w # ws)))"
  using entry_list.walk_missed [OF assms] entry_list.notify_sim [OF assms(1,2), of ctxt]
  by (simp add: spec_notify_def noted_def [abs_def])

theorem preempted_walk_misses_witness:
  "\<exists>s s'. layer_reachable ring_api all_ok ring_view {}
       (s, empty_ledger\<lparr>waiting := [waiter5 0, \<lparr>w_td = 6, w_context = 7, w_posts = 0\<rparr>]\<rparr>) \<and>
     (walk_step ring_api 7 False)\<^sup>*\<^sup>* (s, cursor_of (td_first ring_api s), [waiter5 0, \<lparr>w_td = 6, w_context = 7, w_posts = 0\<rparr>], {})
       (s', Over, [\<lparr>w_td = 6, w_context = 7, w_posts = 0\<rparr>, waiter5 0], {5})"
proof -
  obtain s where e: "timedwait_enter ring_api True 7 100 6 os_asleep = (Block (c_int 100000), s)"
    by (simp add: timedwait_enter_def Let_def)
  have r: "layer_reachable ring_api all_ok ring_view {}
       (s, empty_ledger\<lparr>waiting := [waiter5 0, \<lparr>w_td = 6, w_context = 7, w_posts = 0\<rparr>]\<rparr>)"
    using layer_reachable.step [OF os_asleep_reachable layer_step.wait [OF os_step.enter [OF _ _ e]]]
    by (simp add: sleeping_thread_list_def spec_enter_def)
  have "os_rel ring_api ring_rep s [waiter5 0, \<lparr>w_td = 6, w_context = 7, w_posts = 0\<rparr>]"
    using ring_list.layer_waiters [OF r] by simp
  from preempted_walk_misses [OF ring_list.entry_list_axioms this, of 7 7] r show ?thesis by auto
qed

end
