(* ===== verification/CStrings.thy ===== *)
theory CStrings
  imports Prelude
begin

text \<open>
  The string functions of the C library that the application parses modem responses with. A
  \<open>char *\<close> is the list of characters from where it points to the end of the object it points
  into (\<open>None\<close> is \<open>NULL\<close>); a function that reads past the end of the object before it meets
  the terminator is an overrun. An \<open>int\<close> result that does not fit is an overflow. The last section relates \<open>strsep\<close> to the list of
  comma-separated fields of a string.
\<close>

section \<open>Library functions\<close>

datatype c_error = Overrun | Null_pointer | Int_overflow

abbreviation NUL :: char where
  "NUL \<equiv> CHR 0x00"

type_synonym cptr = "char list option"

definition bindE :: "'e + 'a \<Rightarrow> ('a \<Rightarrow> 'e + 'b) \<Rightarrow> 'e + 'b" where
  "bindE m f = (case m of Inl e \<Rightarrow> Inl e | Inr x \<Rightarrow> f x)"

lemma bindE_simps [simp]: "bindE (Inl e) f = Inl e" "bindE (Inr x) f = f x"
  by (simp_all add: bindE_def)

text \<open>An \<open>int\<close> computation: its mathematical value when that fits, undefined behaviour otherwise.\<close>

definition checked :: "int \<Rightarrow> c_error + int" where
  "checked x = (if in_int x then Inr x else Inl Int_overflow)"

fun scan_to :: "char \<Rightarrow> char list \<Rightarrow> c_error + string \<times> cptr" where
  "scan_to d [] = Inl Overrun"
| "scan_to d (c # cs) =
     (if c = d then Inr ([], Some cs)
      else if c = NUL then Inr ([], None)
      else bindE (scan_to d cs) (\<lambda>(tok, rest). Inr (c # tok, rest)))"

text \<open>
  \<open>strsep(&t, ",")\<close>: the token (None for \<open>NULL\<close>) and the new value of \<open>t\<close>.
\<close>

fun strsep :: "cptr \<Rightarrow> c_error + string option \<times> cptr" where
  "strsep None = Inr (None, None)"
| "strsep (Some p) = bindE (scan_to CHR '','' p) (\<lambda>(tok, rest). Inr (Some tok, rest))"

text \<open>\<open>strncpy(dst, s, n)\<close> pads with NULs and adds no terminator when \<open>s\<close> is too long.\<close>

definition strncpy :: "string \<Rightarrow> nat \<Rightarrow> char list" where
  "strncpy s n = take n (s @ replicate n NUL)"

definition isspace :: "char \<Rightarrow> bool" where
  "isspace c \<longleftrightarrow> c \<in> {CHR '' '', CHR 0x09, CHR 0x0A, CHR 0x0B, CHR 0x0C, CHR 0x0D}"

definition isdigit :: "char \<Rightarrow> bool" where
  "isdigit c \<longleftrightarrow> 48 \<le> (of_char c :: nat) \<and> (of_char c :: nat) \<le> 57"

fun digits_value :: "int \<Rightarrow> string \<Rightarrow> int" where
  "digits_value acc [] = acc"
| "digits_value acc (c # cs) =
     (if isdigit c then digits_value (10 * acc + (of_char c - 48)) cs else acc)"

text \<open>
  The number that \<open>atoi\<close> reads: white space, an optional sign, digits. C leaves the behaviour undefined
  when it does not fit an \<open>int\<close> (\<open>atoi_ptr\<close> of the theory \<open>Lte\<close> makes that an error).
\<close>

definition atoi :: "string \<Rightarrow> int" where
  "atoi s =
     (case dropWhile isspace s of
        [] \<Rightarrow> 0
      | c # cs \<Rightarrow>
          if c = CHR ''-'' then - digits_value 0 cs
          else if c = CHR ''+'' then digits_value 0 cs
          else digits_value 0 (c # cs))"

section \<open>Fields\<close>

text \<open>The comma-separated fields of a string; there is always at least one.\<close>

fun csv_fields :: "string \<Rightarrow> string list" where
  "csv_fields [] = [[]]"
| "csv_fields (c # cs) =
     (if c = CHR '','' then [] # csv_fields cs
      else case csv_fields cs of [] \<Rightarrow> [[c]] | f # fs \<Rightarrow> (c # f) # fs)"

lemma csv_fields_not_Nil [simp]: "csv_fields s \<noteq> []"
  by (induction s) (auto split: list.splits)

text \<open>
  On a terminated string without embedded NULs, \<open>scan_to\<close> peels off the first field; the rest
  is again such a string, holding the remaining fields.
\<close>

lemma scan_to_fields:
  assumes "NUL \<notin> set s"
  shows "\<exists>rest. scan_to CHR '','' (s @ NUL # pad) = Inr (hd (csv_fields s), rest) \<and>
    (case tl (csv_fields s) of
       [] \<Rightarrow> rest = None
     | f # fs \<Rightarrow> \<exists>s'. rest = Some (s' @ NUL # pad) \<and> NUL \<notin> set s' \<and> csv_fields s' = f # fs)"
  using assms
proof (induction s)
  case Nil
  then show ?case by simp
next
  case (Cons c cs)
  show ?case
  proof (cases "c = CHR '',''")
    case True
    with Cons.prems show ?thesis by (auto split: list.splits)
  next
    case False
    from Cons.IH Cons.prems obtain rest where rest:
      "scan_to CHR '','' (cs @ NUL # pad) = Inr (hd (csv_fields cs), rest)"
      "case tl (csv_fields cs) of [] \<Rightarrow> rest = None
       | f # fs \<Rightarrow> \<exists>s'. rest = Some (s' @ NUL # pad) \<and> NUL \<notin> set s' \<and> csv_fields s' = f # fs"
      by auto
    obtain f fs where "csv_fields cs = f # fs" by (cases "csv_fields cs") auto
    with rest False Cons.prems show ?thesis by (auto split: list.splits)
  qed
qed

text \<open>A cursor over the fields: what \<open>t\<close> points to while tokens are taken.\<close>

definition cursor :: "char list \<Rightarrow> string list \<Rightarrow> cptr \<Rightarrow> bool" where
  "cursor pad fs p \<longleftrightarrow>
     (case fs of
        [] \<Rightarrow> p = None
      | _ # _ \<Rightarrow> \<exists>s. p = Some (s @ NUL # pad) \<and> NUL \<notin> set s \<and> csv_fields s = fs)"

lemma cursor_start: "NUL \<notin> set s \<Longrightarrow> cursor pad (csv_fields s) (Some (s @ NUL # pad))"
  by (auto simp: cursor_def split: list.splits)

lemma strsep_cursor:
  assumes "cursor pad fs p"
  shows "\<exists>p'. strsep p = Inr (case fs of [] \<Rightarrow> None | f # _ \<Rightarrow> Some f, p') \<and> cursor pad (tl fs) p'"
proof (cases fs)
  case Nil
  with assms show ?thesis by (auto simp: cursor_def)
next
  case (Cons f fs')
  with assms obtain s where s: "p = Some (s @ NUL # pad)" "NUL \<notin> set s" "csv_fields s = f # fs'"
    by (auto simp: cursor_def)
  with scan_to_fields [OF s(2), of pad] obtain rest where
    "scan_to CHR '','' (s @ NUL # pad) = Inr (f, rest)" "cursor pad fs' rest"
    by (cases fs') (auto simp: cursor_def)
  with s Cons show ?thesis by auto
qed

text \<open>The same by position: the token is the field with the number of tokens taken before.\<close>

definition field :: "nat \<Rightarrow> string list \<Rightarrow> string option" where
  "field k fs = (if k < length fs then Some (fs ! k) else None)"

lemma strsep_field:
  assumes "cursor pad (drop k fs) p"
  shows "\<exists>p'. strsep p = Inr (field k fs, p') \<and> cursor pad (drop (Suc k) fs) p'"
proof -
  have "(case drop k fs of [] \<Rightarrow> None | f # _ \<Rightarrow> Some f) = field k fs"
    by (auto simp: field_def nth_via_drop split: list.splits)
  with strsep_cursor [OF assms] show ?thesis by (simp add: drop_Suc tl_drop)
qed

lemma strncpy_short:
  "length s < n \<Longrightarrow> strncpy s n = s @ NUL # replicate (n - length s - 1) NUL"
  by (simp add: strncpy_def take_replicate flip: replicate_Suc)

section \<open>Decimal numbers\<close>

fun dec :: "nat \<Rightarrow> string" where
  "dec n = (if n < 10 then [char_of (48 + n)] else dec (n div 10) @ [char_of (48 + n mod 10)])"

declare dec.simps [simp del]

lemma of_char_digit: "(n :: nat) < 10 \<Longrightarrow> (of_char (char_of (48 + n) :: char) :: nat) = 48 + n"
  by simp

lemma isdigit_digit: "(n :: nat) < 10 \<Longrightarrow> isdigit (char_of (48 + n))"
  by (simp add: isdigit_def)

lemma isdigit_dec: "c \<in> set (dec n) \<Longrightarrow> isdigit c"
proof (induction n rule: dec.induct)
  case (1 n)
  show ?case
  proof (cases "n < 10")
    case True
    with "1.prems" show ?thesis by (simp add: dec.simps [of n] isdigit_digit)
  next
    case False
    with "1.prems" have "c \<in> set (dec (n div 10)) \<or> c = char_of (48 + n mod 10)"
      by (auto simp: dec.simps [of n])
    with "1.IH" False show ?thesis using isdigit_digit [of "n mod 10"] by auto
  qed
qed

lemma dec_not_Nil [simp]: "dec n \<noteq> []"
  by (simp add: dec.simps [of n])

lemma digits_value_append:
  "\<forall>c \<in> set xs. isdigit c \<Longrightarrow> digits_value acc (xs @ ys) = digits_value (digits_value acc xs) ys"
  by (induction xs arbitrary: acc) auto

lemma digits_value_dec: "digits_value 0 (dec n) = int n"
proof (induction n rule: dec.induct)
  case (1 n)
  have digit: "digits_value a [char_of (48 + d)] = 10 * a + int d" if "d < 10" for a and d :: nat
  proof -
    have "(of_char (char_of (48 + d) :: char) :: int) = int (of_char (char_of (48 + d) :: char))"
      by (rule of_nat_of_char [symmetric])
    with that show ?thesis by (simp add: isdigit_digit)
  qed
  show ?case
  proof (cases "n < 10")
    case True
    then show ?thesis using digit [of n 0] by (simp add: dec.simps [of n])
  next
    case False
    then have "digits_value 0 (dec n) = 10 * int (n div 10) + int (n mod 10)"
      using "1.IH" digit [of "n mod 10"]
      by (simp add: dec.simps [of n] digits_value_append isdigit_dec)
    also have "\<dots> = int n" by presburger
    finally show ?thesis .
  qed
qed

text \<open>\<open>atoi\<close> reads back a decimal number that is followed by something else than a digit.\<close>

lemma atoi_dec:
  assumes "case rest of [] \<Rightarrow> True | c # _ \<Rightarrow> \<not> isdigit c"
  shows "atoi (dec n @ rest) = int n"
proof -
  obtain c cs where d: "dec n = c # cs" by (cases "dec n") auto
  then have "isdigit c" using isdigit_dec [of c n] by simp
  then have "\<not> isspace c" "c \<noteq> CHR ''-''" "c \<noteq> CHR ''+''"
    by (auto simp: isdigit_def isspace_def)
  moreover have "digits_value 0 (dec n @ rest) = int n"
    using assms by (cases rest) (simp_all add: digits_value_append isdigit_dec digits_value_dec)
  ultimately show ?thesis using d by (simp add: atoi_def)
qed

lemma dec_chars: "c \<in> set (dec n) \<Longrightarrow> c \<noteq> CHR '','' \<and> c \<noteq> NUL"
  using isdigit_dec [of c n] by (auto simp: isdigit_def)

lemma fields_field:
  "CHR '','' \<notin> set f \<Longrightarrow> csv_fields f = [f]"
  "CHR '','' \<notin> set f \<Longrightarrow> csv_fields (f @ CHR '','' # s) = f # csv_fields s"
  by (induction f) auto

end
