(* ===== verification/Ipc.thy ===== *)
theory Ipc
  imports Platform CStrings
begin

text \<open>
  Interprocessor communication with the modem core (\<^verbatim>\<open>src/src/nrfx_ipc.c\<close>): the control block,
  loading and clearing the channel configuration, and the interrupt handler. The driver calls and
  the register accesses are events; which device the driver got is visible in the preceding
  \<open>Lookup\<close> event.
\<close>

section \<open>State\<close>

datatype nrfx_err =
    NRFX_SUCCESS | NRFX_ERROR_INTERNAL | NRFX_ERROR_NO_MEM | NRFX_ERROR_NOT_SUPPORTED
  | NRFX_ERROR_INVALID_PARAM | NRFX_ERROR_INVALID_STATE | NRFX_ERROR_INVALID_LENGTH
  | NRFX_ERROR_TIMEOUT | NRFX_ERROR_FORBIDDEN | NRFX_ERROR_NULL | NRFX_ERROR_INVALID_ADDR
  | NRFX_ERROR_BUSY | NRFX_ERROR_ALREADY_INITIALIZED | NRFX_ERROR_DRV_TWI_ERR_OVERRUN
  | NRFX_ERROR_DRV_TWI_ERR_ANACK | NRFX_ERROR_DRV_TWI_ERR_DNACK

text \<open>The numeric codes (\<^verbatim>\<open>src/src/nrfx_errors.h\<close>): a base, and a second base for drivers.\<close>

definition NRFX_ERROR_BASE_NUM :: u32 where
  "NRFX_ERROR_BASE_NUM = 0x0BAD0000"

definition NRFX_ERROR_DRIVERS_BASE_NUM :: u32 where
  "NRFX_ERROR_DRIVERS_BASE_NUM = NRFX_ERROR_BASE_NUM + 0x10000"

fun nrfx_err_code :: "nrfx_err \<Rightarrow> u32" where
  "nrfx_err_code NRFX_SUCCESS = NRFX_ERROR_BASE_NUM + 0"
| "nrfx_err_code NRFX_ERROR_INTERNAL = NRFX_ERROR_BASE_NUM + 1"
| "nrfx_err_code NRFX_ERROR_NO_MEM = NRFX_ERROR_BASE_NUM + 2"
| "nrfx_err_code NRFX_ERROR_NOT_SUPPORTED = NRFX_ERROR_BASE_NUM + 3"
| "nrfx_err_code NRFX_ERROR_INVALID_PARAM = NRFX_ERROR_BASE_NUM + 4"
| "nrfx_err_code NRFX_ERROR_INVALID_STATE = NRFX_ERROR_BASE_NUM + 5"
| "nrfx_err_code NRFX_ERROR_INVALID_LENGTH = NRFX_ERROR_BASE_NUM + 6"
| "nrfx_err_code NRFX_ERROR_TIMEOUT = NRFX_ERROR_BASE_NUM + 7"
| "nrfx_err_code NRFX_ERROR_FORBIDDEN = NRFX_ERROR_BASE_NUM + 8"
| "nrfx_err_code NRFX_ERROR_NULL = NRFX_ERROR_BASE_NUM + 9"
| "nrfx_err_code NRFX_ERROR_INVALID_ADDR = NRFX_ERROR_BASE_NUM + 10"
| "nrfx_err_code NRFX_ERROR_BUSY = NRFX_ERROR_BASE_NUM + 11"
| "nrfx_err_code NRFX_ERROR_ALREADY_INITIALIZED = NRFX_ERROR_BASE_NUM + 12"
| "nrfx_err_code NRFX_ERROR_DRV_TWI_ERR_OVERRUN = NRFX_ERROR_DRIVERS_BASE_NUM + 0"
| "nrfx_err_code NRFX_ERROR_DRV_TWI_ERR_ANACK = NRFX_ERROR_DRIVERS_BASE_NUM + 1"
| "nrfx_err_code NRFX_ERROR_DRV_TWI_ERR_DNACK = NRFX_ERROR_DRIVERS_BASE_NUM + 2"

text \<open>Different errors have different codes, and their order is that of the codes.\<close>

lemmas nrfx_bases = NRFX_ERROR_BASE_NUM_def NRFX_ERROR_DRIVERS_BASE_NUM_def

lemma nrfx_err_code_inject: "nrfx_err_code a = nrfx_err_code b \<longleftrightarrow> a = b"
  by (cases a; cases b) (simp_all add: nrfx_bases)

instantiation nrfx_err :: linorder
begin

definition less_eq_nrfx_err :: "nrfx_err \<Rightarrow> nrfx_err \<Rightarrow> bool" where
  "less_eq_nrfx_err a b \<longleftrightarrow> nrfx_err_code a \<le> nrfx_err_code b"

definition less_nrfx_err :: "nrfx_err \<Rightarrow> nrfx_err \<Rightarrow> bool" where
  "less_nrfx_err a b \<longleftrightarrow> nrfx_err_code a < nrfx_err_code b"

instance
  by standard (auto simp: less_eq_nrfx_err_def less_nrfx_err_def nrfx_err_code_inject [symmetric])

end

lemma nrfx_success_least: "NRFX_SUCCESS \<le> e"
  by (cases e) (simp_all add: less_eq_nrfx_err_def nrfx_bases)

lemma nrfx_driver_errors:
  "NRFX_ERROR_ALREADY_INITIALIZED < e \<longleftrightarrow>
     e \<in> {NRFX_ERROR_DRV_TWI_ERR_OVERRUN, NRFX_ERROR_DRV_TWI_ERR_ANACK, NRFX_ERROR_DRV_TWI_ERR_DNACK}"
  by (cases e) (simp_all add: less_nrfx_err_def nrfx_bases)

definition IPC_CONF_NUM :: nat where
  "IPC_CONF_NUM = 8"

text \<open>The control block: a handler is a function pointer, \<open>None\<close> when it is \<open>NULL\<close>.\<close>

record ipc_control_block =
  handler :: "nat option"
  p_context :: u32
  state :: int

record nrfx_ipc_config =
  send_task_config :: "nat \<Rightarrow> u32"
  receive_event_config :: "nat \<Rightarrow> u32"
  receive_events_enabled :: u32

definition m_ipc_cb :: ipc_control_block where
  "m_ipc_cb = \<lparr>handler = None, p_context = 0, state = 0\<rparr>"

section \<open>Operations\<close>

text \<open>A call through the handler pointer.\<close>

definition call_handler :: "ipc_control_block \<Rightarrow> u32 \<Rightarrow> history \<Rightarrow> c_error + history" where
  "call_handler icb event_mask h =
     (case handler icb of
        None \<Rightarrow> Inl Null_pointer
      | Some f \<Rightarrow> Inr (h @ [Ipc (Ipc_handler f event_mask (p_context icb))]))"

definition cb :: "ipc_control_block \<Rightarrow> nat \<Rightarrow> history \<Rightarrow> c_error + history" where
  "cb icb ev_id h = call_handler icb (push_bit ev_id 1) h"

definition ipc_do :: "ipc_call list \<Rightarrow> history \<Rightarrow> history" where
  "ipc_do cs h = h @ map Ipc cs"

text \<open>
  The driver reads its state through the device it is given, so its first call with a null device is a
  null-pointer access; nothing checks the device before. All operations have the control block at hand.
\<close>

definition nrfx_ipc_config_load ::
    "platform \<Rightarrow> nrfx_ipc_config \<Rightarrow> ipc_control_block \<Rightarrow> history \<Rightarrow> c_error + ipc_control_block \<times> history" where
  "nrfx_ipc_config_load P p_config icb h =
     (let (dev, h) = mdx_device_lookup_by_name P ''nrf_ipc'' 0 h
      in if \<not> dev then Inl Null_pointer
      else let h = fold (\<lambda>i. ipc_do [Ipc_configure_send i (send_task_config p_config i)]) [0..<IPC_CONF_NUM] h;
               h = fold (\<lambda>i. ipc_do [Ipc_configure_recv i (receive_event_config p_config i) True]) [0..<IPC_CONF_NUM] h
           in Inr (icb, ipc_do [Ipc_inten_chanmask (receive_events_enabled p_config) True] h))"

definition nrfx_ipc_receive_event_disable ::
    "platform \<Rightarrow> u8 \<Rightarrow> ipc_control_block \<Rightarrow> history \<Rightarrow> ipc_control_block outcome \<times> history" where
  "nrfx_ipc_receive_event_disable P event_index icb h =
     (let (dev, h) = mdx_device_lookup_by_name P ''nrf_ipc'' 0 h
      in if \<not> dev then panic ''IPC device not found. Check your DTB'' [] h
         else (Returned icb, ipc_do [Ipc_inten event_index False] h))"

definition nrfx_ipc_receive_event_enable ::
    "platform \<Rightarrow> u8 \<Rightarrow> ipc_control_block \<Rightarrow> history \<Rightarrow> ipc_control_block outcome \<times> history" where
  "nrfx_ipc_receive_event_enable P event_index icb h =
     (let (dev, h) = mdx_device_lookup_by_name P ''nrf_ipc'' 0 h
      in if \<not> dev then panic ''IPC device not found. Check your DTB'' [] h
         else (Returned icb, ipc_do [Ipc_inten event_index True] h))"

definition nrfx_ipc_init ::
    "platform \<Rightarrow> nat option \<Rightarrow> u32 \<Rightarrow> ipc_control_block \<Rightarrow> history \<Rightarrow> (u32 \<times> ipc_control_block) outcome \<times> history" where
  "nrfx_ipc_init P hnd ctx icb h =
     (let (nvic, h) = mdx_device_lookup_by_name P ''nvic'' 0 h
      in if \<not> nvic then panic ''NVIC not found. Check your DTB'' [] h
      else let (dev, h) = mdx_device_lookup_by_name P ''nrf_ipc'' 0 h
      in if \<not> dev then panic ''IPC device not found. Check your DTB'' [] h
      else (Returned (nrfx_err_code NRFX_SUCCESS, icb\<lparr>handler := hnd, p_context := ctx\<rparr>), h))"

definition nrfx_ipc_uninit ::
    "platform \<Rightarrow> ipc_control_block \<Rightarrow> history \<Rightarrow> c_error + ipc_control_block \<times> history" where
  "nrfx_ipc_uninit P icb h =
     (let (dev, h) = mdx_device_lookup_by_name P ''nrf_ipc'' 0 h
      in if \<not> dev then Inl Null_pointer
      else let h = fold (\<lambda>i. ipc_do [Ipc_configure_send i 0]) [0..<IPC_CONF_NUM] h;
               h = fold (\<lambda>i. ipc_do [Ipc_configure_recv i 0 False]) [0..<IPC_CONF_NUM] h
           in Inr (icb, ipc_do [Ipc_inten_chanmask 0xffffffff False] h))"

text \<open>
  The interrupt handler: \<open>pending\<close> is what the register holds when it is read. The loop runs
  over the channels from \<open>i\<close> on.
\<close>

function irq_loop :: "ipc_control_block \<Rightarrow> u32 \<Rightarrow> nat \<Rightarrow> history \<Rightarrow> c_error + history" where
  "irq_loop icb pending i h =
     (if i < IPC_CONF_NUM then
        if pending AND push_bit i 1 \<noteq> 0 then
          bindE (call_handler icb (of_nat i) (ipc_do [Ipc_clear_receive i] h)) (irq_loop icb pending (i + 1))
        else irq_loop icb pending (i + 1) h
      else Inr h)"
  by auto

termination irq_loop
  by (relation "measure (\<lambda>(icb, pending, i, h). IPC_CONF_NUM - i)") auto

declare irq_loop.simps [simp del]

definition nrfx_ipc_irq_handler :: "ipc_control_block \<Rightarrow> u32 \<Rightarrow> history \<Rightarrow> c_error + history" where
  "nrfx_ipc_irq_handler icb pending h = irq_loop icb pending 0 (ipc_do [Ipc_read_intpend] h)"

text \<open>\<open>ipc_intr\<close> of \<^verbatim>\<open>src/src/nrf_modem.c\<close> hands the interrupt on.\<close>

definition ipc_intr :: "ipc_control_block \<Rightarrow> u32 \<Rightarrow> history \<Rightarrow> c_error + history" where
  "ipc_intr icb pending h = nrfx_ipc_irq_handler icb pending h"

section \<open>Lemmas\<close>

lemma fold_ipc_do: "fold (\<lambda>i. ipc_do [f i]) is h = h @ map Ipc (map f is)"
  by (induction "is" arbitrary: h) (simp_all add: ipc_do_def)

lemma pending_test: "(w :: u32) AND 2 ^ i = 0 \<longleftrightarrow> \<not> bit w i"
  by (rule and_exp_eq_0_iff_not_bit)

text \<open>What one pending channel adds to the history: its event is cleared, then handled.\<close>

definition dispatch :: "nat \<Rightarrow> u32 \<Rightarrow> nat \<Rightarrow> event list" where
  "dispatch f ctx i = [Ipc (Ipc_clear_receive i), Ipc (Ipc_handler f (of_nat i) ctx)]"

definition pending_channels :: "u32 \<Rightarrow> nat list" where
  "pending_channels pending = filter (bit pending) [0..<IPC_CONF_NUM]"

lemma irq_loop_handled:
  "handler icb = Some f \<Longrightarrow> irq_loop icb pending i h =
     Inr (h @ concat (map (dispatch f (p_context icb)) (filter (bit pending) [i..<IPC_CONF_NUM])))"
proof (induction icb pending i h rule: irq_loop.induct)
  case (1 icb pending i h)
  show ?case
  proof (cases "i < IPC_CONF_NUM")
    case True
    then have "[i..<IPC_CONF_NUM] = i # [i + 1..<IPC_CONF_NUM]" by (simp add: upt_conv_Cons)
    with True 1 show ?thesis
      by (cases "bit pending i") (simp_all add: irq_loop.simps [of icb pending i h] pending_test
          call_handler_def dispatch_def ipc_do_def)
  qed (simp add: irq_loop.simps [of icb pending i h])
qed

lemma irq_loop_null:
  "handler icb = None \<Longrightarrow> irq_loop icb pending i h =
     (if filter (bit pending) [i..<IPC_CONF_NUM] = [] then Inr h else Inl Null_pointer)"
proof (induction icb pending i h rule: irq_loop.induct)
  case (1 icb pending i h)
  show ?case
  proof (cases "i < IPC_CONF_NUM")
    case True
    then have "[i..<IPC_CONF_NUM] = i # [i + 1..<IPC_CONF_NUM]" by (simp add: upt_conv_Cons)
    with True 1 show ?thesis
      by (cases "bit pending i") (simp_all add: irq_loop.simps [of icb pending i h] pending_test
          call_handler_def)
  qed (simp add: irq_loop.simps [of icb pending i h])
qed

section \<open>Properties\<close>

text \<open>
  C23: the interrupt handler reads the pending register once and serves exactly the pending
  channels among the eight, each once and in ascending order; for each it clears the channel's
  event before it calls the handler. With no handler installed it faults exactly when one of these
  channels is pending, and otherwise does nothing.
\<close>

theorem irq_handler_dispatch:
  "nrfx_ipc_irq_handler icb pending h =
     (case handler icb of
        Some f \<Rightarrow> Inr (h @ Ipc Ipc_read_intpend #
          concat (map (dispatch f (p_context icb)) (pending_channels pending)))
      | None \<Rightarrow> if pending_channels pending = [] then Inr (h @ [Ipc Ipc_read_intpend]) else Inl Null_pointer)
   \<and> sorted_wrt (<) (pending_channels pending)
   \<and> set (pending_channels pending) = {i. bit pending i \<and> i < 8}"
proof (intro conjI)
  show "sorted_wrt (<) (pending_channels pending)"
    by (simp add: pending_channels_def sorted_wrt_filter)
qed (auto simp: nrfx_ipc_irq_handler_def irq_loop_handled irq_loop_null pending_channels_def
    ipc_do_def IPC_CONF_NUM_def split: option.splits)

text \<open>
  The two ways an event reaches the installed handler disagree: the driver callback \<open>cb\<close> passes the mask
  with the event's bit, as the handler type says, the interrupt handler the number of the event
  (\<open>dispatch\<close>), and these are different for each of the eight events.
\<close>

lemma event_mask_mismatch:
  assumes "handler icb = Some f" and "i < 8"
  shows "cb icb i h = Inr (h @ [Ipc (Ipc_handler f (push_bit i 1) (p_context icb))]) \<and>
    dispatch f (p_context icb) i = [Ipc (Ipc_clear_receive i), Ipc (Ipc_handler f (of_nat i) (p_context icb))] \<and>
    (of_nat i :: u32) \<noteq> push_bit i 1"
proof -
  have "i \<in> {0, 1, 2, 3, 4, 5, 6, 7}" using assms(2) by auto
  then have "(of_nat i :: u32) \<noteq> push_bit i 1" by auto
  with assms(1) show ?thesis by (simp add: cb_def call_handler_def dispatch_def)
qed

text \<open>What the last driver call on a channel wrote.\<close>

fun last_send :: "nat \<Rightarrow> history \<Rightarrow> u32 option" where
  "last_send i [] = None"
| "last_send i (e # h) = (case last_send i h of Some v \<Rightarrow> Some v | None \<Rightarrow>
     (case e of Ipc (Ipc_configure_send j v) \<Rightarrow> if j = i then Some v else None | _ \<Rightarrow> None))"

fun last_recv :: "nat \<Rightarrow> history \<Rightarrow> (u32 \<times> bool) option" where
  "last_recv i [] = None"
| "last_recv i (e # h) = (case last_recv i h of Some v \<Rightarrow> Some v | None \<Rightarrow>
     (case e of Ipc (Ipc_configure_recv j v c) \<Rightarrow> if j = i then Some (v, c) else None | _ \<Rightarrow> None))"

lemma last_send_append [simp]:
  "last_send i (h @ h') = (case last_send i h' of Some v \<Rightarrow> Some v | None \<Rightarrow> last_send i h)"
  by (induction h) (auto split: option.splits)

lemma last_recv_append [simp]:
  "last_recv i (h @ h') = (case last_recv i h' of Some v \<Rightarrow> Some v | None \<Rightarrow> last_recv i h)"
  by (induction h) (auto split: option.splits)

lemma last_send_sends:
  "last_send i (map (\<lambda>j. Ipc (Ipc_configure_send j (f j))) js) = (if i \<in> set js then Some (f i) else None)"
  "last_send i (map (\<lambda>j. Ipc (Ipc_configure_recv j (r j) c)) js) = None"
  by (induction js) auto

lemma last_recv_recvs:
  "last_recv i (map (\<lambda>j. Ipc (Ipc_configure_recv j (f j) c)) js) = (if i \<in> set js then Some (f i, c) else None)"
  by (induction js) auto

text \<open>
  After \<open>nrfx_ipc_config_load\<close> every channel is configured as its argument says, with the
  callback installed, and interrupts are enabled last; after \<open>nrfx_ipc_uninit\<close> every channel is
  cleared, without a callback, and all interrupts are disabled, whatever was loaded before.
\<close>

lemma config_load_uninit:
  assumes "i < 8" and "nrfx_ipc_config_load P c icb h = Inr (icb1, h1)" and "nrfx_ipc_uninit P icb1 h1 = Inr (icb2, h2)"
  shows "last_send i h1 = Some (send_task_config c i) \<and> last_recv i h1 = Some (receive_event_config c i, True) \<and>
    last h1 = Ipc (Ipc_inten_chanmask (receive_events_enabled c) True) \<and>
    last_send i h2 = Some 0 \<and> last_recv i h2 = Some (0, False) \<and> last h2 = Ipc (Ipc_inten_chanmask 0xffffffff False)"
  using assms
  by (auto simp: nrfx_ipc_config_load_def nrfx_ipc_uninit_def fold_ipc_do mdx_device_lookup_by_name_def
      Let_def ipc_do_def comp_def last_send_sends last_recv_recvs IPC_CONF_NUM_def split: if_splits)

text \<open>They fault exactly when the device is not found, and keep the control block otherwise.\<close>

lemma config_load_cases:
  "\<exists>h'. nrfx_ipc_config_load P c icb h =
     (if device_found P h ''nrf_ipc'' 0 then Inr (icb, h') else Inl Null_pointer)"
  by (simp add: nrfx_ipc_config_load_def mdx_device_lookup_by_name_def Let_def)

lemma uninit_cases:
  "\<exists>h'. nrfx_ipc_uninit P icb h =
     (if device_found P h ''nrf_ipc'' 0 then Inr (icb, h') else Inl Null_pointer)"
  by (simp add: nrfx_ipc_uninit_def mdx_device_lookup_by_name_def Let_def)

end
