(* ===== verification/Ipc_Machine.thy ===== *)
theory Ipc_Machine
  imports Ipc
begin

text \<open>
  Interprocessor communication as a state machine: the modem library configures, enables,
  disables, clears and reinstalls, while interrupts and driver callbacks arrive at any time. The
  steps are the operations of \<open>Ipc\<close>; the state is the control block and the history.
\<close>

section \<open>Steps\<close>

text \<open>
  A step either goes on in a new state or, when a call goes through a null handler or the driver is given a
  null device, faults. A
  panic stops the system and is not a step. The client installs only handlers, with their
  contexts, from the set \<open>I\<close>.
\<close>

datatype ipc_state = Running ipc_control_block history | Faulted

inductive ipc_step :: "platform \<Rightarrow> (nat \<times> u32) set \<Rightarrow> ipc_state \<Rightarrow> ipc_state \<Rightarrow> bool" for P I where
  init: "(f, ctx) \<in> I \<Longrightarrow> nrfx_ipc_init P (Some f) ctx icb h = (Returned (e, icb'), h') \<Longrightarrow>
    ipc_step P I (Running icb h) (Running icb' h')"
| load: "nrfx_ipc_config_load P c icb h = Inr (icb', h') \<Longrightarrow> ipc_step P I (Running icb h) (Running icb' h')"
| load_fault: "nrfx_ipc_config_load P c icb h = Inl e \<Longrightarrow> ipc_step P I (Running icb h) Faulted"
| enable: "nrfx_ipc_receive_event_enable P i icb h = (Returned icb', h') \<Longrightarrow>
    ipc_step P I (Running icb h) (Running icb' h')"
| disable: "nrfx_ipc_receive_event_disable P i icb h = (Returned icb', h') \<Longrightarrow>
    ipc_step P I (Running icb h) (Running icb' h')"
| uninit: "nrfx_ipc_uninit P icb h = Inr (icb', h') \<Longrightarrow> ipc_step P I (Running icb h) (Running icb' h')"
| uninit_fault: "nrfx_ipc_uninit P icb h = Inl e \<Longrightarrow> ipc_step P I (Running icb h) Faulted"
| interrupt: "ipc_intr icb pending h = Inr h' \<Longrightarrow> ipc_step P I (Running icb h) (Running icb h')"
| interrupt_fault: "ipc_intr icb pending h = Inl e \<Longrightarrow> ipc_step P I (Running icb h) Faulted"
| callback: "i < 8 \<Longrightarrow> cb icb i h = Inr h' \<Longrightarrow> ipc_step P I (Running icb h) (Running icb h')"
| callback_fault: "i < 8 \<Longrightarrow> cb icb i h = Inl e \<Longrightarrow> ipc_step P I (Running icb h) Faulted"

inductive_cases ipc_stepE: "ipc_step P I (Running icb h) s"
inductive_simps faulted_step: "ipc_step P I Faulted s"

abbreviation ipc_steps :: "platform \<Rightarrow> (nat \<times> u32) set \<Rightarrow> ipc_state \<Rightarrow> ipc_state \<Rightarrow> bool" where
  "ipc_steps P I \<equiv> (ipc_step P I)\<^sup>*\<^sup>*"

section \<open>Handler calls\<close>

text \<open>The handler calls of a history, as a view: which handler was called with which context.\<close>

definition targets :: "event \<Rightarrow> (nat \<times> u32) list" where
  "targets e = (case e of Ipc (Ipc_handler f m ctx) \<Rightarrow> [(f, ctx)] | _ \<Rightarrow> [])"

interpretation ipc_view: event_view targets
  by unfold_locales (simp_all add: targets_def)

lemma targets_map_ipc:
  "shown targets (map (\<lambda>i. Ipc (Ipc_configure_send i (a i))) is) = []"
  "shown targets (map (\<lambda>i. Ipc (Ipc_configure_recv i (a i) b)) is) = []"
  by (induction "is") (simp_all add: targets_def)

text \<open>What the operations leave: they call no handler, and all but \<open>nrfx_ipc_init\<close> keep the control block.\<close>

lemma quiet_operations:
  "nrfx_ipc_config_load P c icb h = Inr (icb', h') \<Longrightarrow> grows targets h h' [] \<and> icb' = icb"
  "nrfx_ipc_uninit P icb h = Inr (icb', h') \<Longrightarrow> grows targets h h' [] \<and> icb' = icb"
  by (auto simp: nrfx_ipc_config_load_def nrfx_ipc_uninit_def mdx_device_lookup_by_name_def fold_ipc_do
      ipc_do_def Let_def grows_events comp_def targets_map_ipc split: if_splits)
    (simp_all add: targets_def)

lemma quiet_panicking:
  "nrfx_ipc_receive_event_enable P i icb h = (Returned icb', h') \<Longrightarrow> grows targets h h' [] \<and> icb' = icb"
  "nrfx_ipc_receive_event_disable P i icb h = (Returned icb', h') \<Longrightarrow> grows targets h h' [] \<and> icb' = icb"
  "nrfx_ipc_init P f ctx icb h = (Returned (e, icb'), h') \<Longrightarrow> grows targets h h' []"
  by (auto simp: nrfx_ipc_receive_event_enable_def nrfx_ipc_receive_event_disable_def nrfx_ipc_init_def
      mdx_device_lookup_by_name_def panic_def ipc_do_def Let_def grows_events targets_def split: if_splits)

lemma init_installs:
  "nrfx_ipc_init P f ctx icb h = (Returned (e, icb'), h') \<Longrightarrow> handler icb' = f \<and> p_context icb' = ctx"
  by (auto simp: nrfx_ipc_init_def mdx_device_lookup_by_name_def panic_def Let_def split: if_splits)

lemma shown_dispatch:
  "shown targets (concat (map (dispatch f ctx) is)) = replicate (length is) (f, ctx)"
  by (induction "is") (simp_all add: dispatch_def targets_def)

lemma intr_returns:
  assumes "handler icb = Some f"
  shows "\<exists>h'. ipc_intr icb pending h = Inr h' \<and>
    grows targets h h' (replicate (length (pending_channels pending)) (f, p_context icb))"
  using assms by (simp add: ipc_intr_def nrfx_ipc_irq_handler_def irq_loop_handled ipc_do_def
      grows_events shown_dispatch pending_channels_def) (simp add: targets_def)

lemma cb_returns:
  assumes "handler icb = Some f"
  shows "\<exists>h'. cb icb i h = Inr h' \<and> grows targets h h' [(f, p_context icb)]"
  using assms by (simp add: cb_def call_handler_def grows_events targets_def)

section \<open>Invariant\<close>

text \<open>
  Once a handler is installed: the system is running, a handler of \<open>I\<close> is installed, and every call
  made since the start went to a handler and context of \<open>I\<close>.
\<close>

definition ready :: "(nat \<times> u32) set \<Rightarrow> history \<Rightarrow> ipc_state \<Rightarrow> bool" where
  "ready I start s \<longleftrightarrow> (\<exists>icb h f vs. s = Running icb h \<and> handler icb = Some f \<and> (f, p_context icb) \<in> I \<and>
     grows targets start h vs \<and> set vs \<subseteq> I)"

lemma ready_intro:
  "grows targets start h vs \<Longrightarrow> set vs \<subseteq> I \<Longrightarrow> grows targets h h' vs' \<Longrightarrow> set vs' \<subseteq> I \<Longrightarrow>
   handler icb = Some f \<Longrightarrow> (f, p_context icb) \<in> I \<Longrightarrow> ready I start (Running icb h')"
  unfolding ready_def by (fastforce dest: grows_trans)

text \<open>A step from such a state leads to such a state, unless the device is not found.\<close>

lemma ready_step:
  assumes "ready I start (Running icb h)" and "ipc_step P I (Running icb h) s'"
  shows "ready I start s' \<or> s' = Faulted \<and> \<not> device_found P h ''nrf_ipc'' 0"
proof -
  from assms(1) obtain f vs where f: "handler icb = Some f" "(f, p_context icb) \<in> I"
    and vs: "grows targets start h vs" "set vs \<subseteq> I"
    by (auto simp: ready_def)
  note go = ready_intro [OF vs]
  from assms(2) show ?thesis
  proof cases
    case (init g ctx e icb' h')
    with init_installs [OF init(3)] quiet_panicking(3) [OF init(3)] show ?thesis by (auto intro: go)
  next
    case (interrupt pending h')
    then show ?thesis using intr_returns [OF f(1), of pending h] f by (fastforce intro: go)
  next
    case (callback i h')
    then show ?thesis using cb_returns [OF f(1), of i h] f by (auto intro: go)
  next
    case (interrupt_fault pending e)
    then show ?thesis using intr_returns [OF f(1), of pending h] by auto
  next
    case (callback_fault i e)
    then show ?thesis using cb_returns [OF f(1), of i h] by auto
  next
    case (load c icb' h')
    then show ?thesis using quiet_operations(1) [OF load(2)] f by (auto intro: go)
  next
    case (load_fault c e)
    then show ?thesis using config_load_cases [of P c icb h] by (auto split: if_splits)
  next
    case (enable i icb' h')
    then show ?thesis using quiet_panicking(1) [OF enable(2)] f by (auto intro: go)
  next
    case (disable i icb' h')
    then show ?thesis using quiet_panicking(2) [OF disable(2)] f by (auto intro: go)
  next
    case (uninit icb' h')
    then show ?thesis using quiet_operations(2) [OF uninit(2)] f by (auto intro: go)
  next
    case (uninit_fault e)
    then show ?thesis using uninit_cases [of P icb h] by (auto split: if_splits)
  qed
qed

lemma ready_steps:
  assumes "ipc_steps P I s s'" and "ready I start s"
  shows "s' \<noteq> Faulted \<longrightarrow> ready I start s'"
  using assms
proof (induction rule: rtranclp_induct)
  case (step s' s'')
  then show ?case by (cases s') (auto simp: faulted_step dest: ready_step)
qed simp

lemma faults_iff:
  assumes "ready I start (Running icb h)"
  shows "ipc_steps P I (Running icb h) Faulted \<longleftrightarrow>
    (\<exists>icb' h'. ipc_steps P I (Running icb h) (Running icb' h') \<and> \<not> device_found P h' ''nrf_ipc'' 0)"
proof
  assume "ipc_steps P I (Running icb h) Faulted"
  then obtain s where s: "ipc_steps P I (Running icb h) s" "ipc_step P I s Faulted"
    by (cases rule: rtranclp.cases) auto
  then obtain icb' h' where r: "s = Running icb' h'" by (cases s) (auto simp: faulted_step)
  with ready_steps [OF s(1) assms] have "ready I start (Running icb' h')" by simp
  from ready_step [OF this s(2) [unfolded r]] have "\<not> device_found P h' ''nrf_ipc'' 0" by (auto simp: ready_def)
  with s(1) r show "\<exists>icb' h'. ipc_steps P I (Running icb h) (Running icb' h') \<and> \<not> device_found P h' ''nrf_ipc'' 0" by blast
next
  assume "\<exists>icb' h'. ipc_steps P I (Running icb h) (Running icb' h') \<and> \<not> device_found P h' ''nrf_ipc'' 0"
  then obtain icb' h' where s: "ipc_steps P I (Running icb h) (Running icb' h')" "\<not> device_found P h' ''nrf_ipc'' 0" by blast
  then have "ipc_step P I (Running icb' h') Faulted"
    using uninit_cases [of P icb' h'] by (auto intro: ipc_step.uninit_fault)
  with s(1) show "ipc_steps P I (Running icb h) Faulted" by (rule rtranclp.rtrancl_into_rtrancl)
qed

section \<open>Properties\<close>

text \<open>
  C10: when the machine faults. After a handler has been installed, a sequence of reconfigurations, clearings,
  reinstallations, interrupts and driver callbacks can fault if and only if it can come to a point where the
  device is not found any more, which loading and clearing do not check; with the device in place nothing faults.
  In every state before, an interrupt and a callback return, and every handler call made so far went to a
  handler that was installed, with its own context. Before the first installation, an interrupt
  faults exactly when a channel is pending.
\<close>

theorem ipc_no_fault:
  assumes "nrfx_ipc_init P (Some f) ctx m_ipc_cb h = (Returned (e, icb), h1)" and "(f, ctx) \<in> I"
  shows "(ipc_steps P I (Running icb h1) Faulted \<longleftrightarrow>
      (\<exists>icb' h2. ipc_steps P I (Running icb h1) (Running icb' h2) \<and> \<not> device_found P h2 ''nrf_ipc'' 0)) \<and>
    (\<forall>icb' h2 pending i. ipc_steps P I (Running icb h1) (Running icb' h2) \<longrightarrow>
      set (shown targets (new_events h1 h2)) \<subseteq> I \<and>
      (\<exists>h3. ipc_intr icb' pending h2 = Inr h3) \<and> (\<exists>h3. cb icb' i h2 = Inr h3)) \<and>
    (\<forall>pending. ipc_intr m_ipc_cb pending h = Inl Null_pointer \<longleftrightarrow> pending_channels pending \<noteq> [])"
proof (intro conjI allI impI)
  have start: "ready I h1 (Running icb h1)"
    using init_installs [OF assms(1)] assms(2) by (auto simp: ready_def intro: grows_refl)
  from faults_iff [OF this] show "ipc_steps P I (Running icb h1) Faulted \<longleftrightarrow>
      (\<exists>icb' h2. ipc_steps P I (Running icb h1) (Running icb' h2) \<and> \<not> device_found P h2 ''nrf_ipc'' 0)" .
  show "ipc_intr m_ipc_cb pending h = Inl Null_pointer \<longleftrightarrow> pending_channels pending \<noteq> []" for pending
    by (simp add: ipc_intr_def nrfx_ipc_irq_handler_def m_ipc_cb_def irq_loop_null pending_channels_def)
  fix icb' h2 pending i
  assume "ipc_steps P I (Running icb h1) (Running icb' h2)"
  from ready_steps [OF this start] obtain f' vs where r: "handler icb' = Some f'" "grows targets h1 h2 vs" "set vs \<subseteq> I"
    by (auto simp: ready_def)
  show "set (shown targets (new_events h1 h2)) \<subseteq> I" using r(3) grows_new_events [OF r(2)] by simp
  show "\<exists>h3. ipc_intr icb' pending h2 = Inr h3" using intr_returns [OF r(1)] by blast
  show "\<exists>h3. cb icb' i h2 = Inr h3" using cb_returns [OF r(1)] by blast
qed

text \<open>
  A handler is installed, an interrupt on channel 3 arrives, the configuration is cleared, and the next
  interrupt is served; with the device in place no sequence faults.
\<close>

theorem ipc_no_fault_witness:
  "\<exists>icb h1 h2 h3 h4. nrfx_ipc_init all_ok (Some 9) 5 m_ipc_cb [] = (Returned (0x0BAD0000, icb), h1) \<and>
     ipc_intr icb 8 h1 = Inr h2 \<and> nrfx_ipc_uninit all_ok icb h2 = Inr (icb, h3) \<and> ipc_intr icb 1 h3 = Inr h4 \<and>
     set (shown targets (new_events h1 h3)) \<subseteq> {(9, 5)} \<and> \<not> ipc_steps all_ok {(9, 5)} (Running icb h1) Faulted"
proof -
  obtain icb h1 where i: "nrfx_ipc_init all_ok (Some 9) 5 m_ipc_cb [] = (Returned (0x0BAD0000, icb), h1)"
    by (simp add: nrfx_ipc_init_def run_simps all_ok_def NRFX_ERROR_BASE_NUM_def)
  then have "handler icb = Some 9" using init_installs by auto
  with intr_returns obtain h2 where h2: "ipc_intr icb 8 h1 = Inr h2" by blast
  have found: "device_found all_ok h ''nrf_ipc'' 0" for h by (simp add: all_ok_def)
  with uninit_cases [of all_ok icb h2] obtain h3 where h3: "nrfx_ipc_uninit all_ok icb h2 = Inr (icb, h3)" by auto
  have steps: "ipc_steps all_ok {(9, 5)} (Running icb h1) (Running icb h3)"
    by (rule rtranclp.rtrancl_into_rtrancl [OF r_into_rtranclp])
      (rule ipc_step.interrupt [OF h2], rule ipc_step.uninit [OF h3])
  from ipc_no_fault [OF i, of "{(9, 5)}"] found have nf: "\<not> ipc_steps all_ok {(9, 5)} (Running icb h1) Faulted"
    and "set (shown targets (new_events h1 h3)) \<subseteq> {(9, 5)}" "\<exists>h4. ipc_intr icb 1 h3 = Inr h4"
    using steps by (simp, blast+)
  with i h2 h3 show ?thesis by blast
qed

end
