(* ===== verification/Wakeup.thy ===== *)
theory Wakeup
  imports OS_Properties Ipc_Machine
begin

text \<open>
  From the interrupt to the waiting thread: \<open>ipc_intr\<close> and the notification of \<^verbatim>\<open>src/src/nrf_modem.c\<close>
  with the interrupt handler of \<^verbatim>\<open>src/src/nrfx_ipc.c\<close>. Between them is the modem library, a
  parameter: \<open>lib f v p\<close> are the contexts it notifies, in order, when its handler \<open>f\<close> is called with the
  value \<open>v\<close> and the pointer \<open>p\<close>.
\<close>

section \<open>Delivery\<close>

type_synonym modem_lib = "nat \<Rightarrow> u32 \<Rightarrow> u32 \<Rightarrow> u32 list"

text \<open>The handler calls that an interrupt makes, in order.\<close>

definition handler_call :: "event \<Rightarrow> (nat \<times> u32 \<times> u32) list" where
  "handler_call e = (case e of Ipc (Ipc_handler f v p) \<Rightarrow> [(f, v, p)] | _ \<Rightarrow> [])"

fun notify_all :: "('h, 's, 'm) os_api \<Rightarrow> u32 list \<Rightarrow> ('h, 's, 'm) os \<Rightarrow> ('h, 's, 'm) os option" where
  "notify_all A [] s = Some s"
| "notify_all A (c # cs) s = (case nrf_modem_os_event_notify A c s of None \<Rightarrow> None | Some s \<Rightarrow> notify_all A cs s)"

text \<open>
  One interrupt: the interrupt handler runs, and in each of its handler calls the library notifies.
  The notifications do not touch the state of the interrupt layer, so they can be run after it. The
  result is the fault of the interrupt handler or the new state, and \<open>None\<close> if a notification never
  returns.
\<close>

definition interrupt ::
    "('h, 's, 'm) os_api \<Rightarrow> modem_lib \<Rightarrow> ipc_control_block \<Rightarrow> u32 \<Rightarrow> ('h, 's, 'm) os \<Rightarrow> history \<Rightarrow>
     (c_error + ('h, 's, 'm) os \<times> history) option" where
  "interrupt A lib icb pending s h =
     (case ipc_intr icb pending h of
        Inl e \<Rightarrow> Some (Inl e)
      | Inr h' \<Rightarrow>
          (case notify_all A (concat (map (\<lambda>(f, v, p). lib f v p) (shown handler_call (new_events h h')))) s of
             None \<Rightarrow> None
           | Some s' \<Rightarrow> Some (Inr (s', h'))))"

section \<open>Lemmas\<close>

lemma shown_handler_calls:
  "shown handler_call (concat (map (dispatch f ctx) is)) = map (\<lambda>i. (f, of_nat i, ctx)) is"
  by (induction "is") (simp_all add: dispatch_def handler_call_def)

lemma ipc_intr_calls:
  assumes "handler icb = Some f"
  shows "\<exists>h'. ipc_intr icb pending h = Inr h' \<and>
    shown handler_call (new_events h h') = map (\<lambda>i. (f, of_nat i, p_context icb)) (pending_channels pending)"
  using assms by (simp add: ipc_intr_def nrfx_ipc_irq_handler_def irq_loop_handled ipc_do_def
      shown_handler_calls flip: pending_channels_def) (simp add: handler_call_def)

lemma spec_notifies:
  assumes "w \<in> set ws"
  shows "\<exists>w' \<in> set (fold spec_notify cs ws). w_td w' = w_td w \<and> w_context w' = w_context w \<and>
    w_posts w' = w_posts w + length (filter (\<lambda>c. w_context w = c \<or> c = 0) cs)"
  using assms
proof (induction cs arbitrary: ws w)
  case (Cons c cs)
  let ?w = "if w_context w = c \<or> c = 0 then w\<lparr>w_posts := Suc (w_posts w)\<rparr> else w"
  have "?w \<in> set (spec_notify c ws)" using Cons.prems by (auto simp: spec_notify_def)
  from Cons.IH [OF this] show ?case by (auto split: if_splits)
qed auto

context entry_list
begin

lemma notify_all_reaches:
  assumes "layer_reachable A P V T (s, L)"
  shows "\<exists>s'. notify_all A cs s = Some s' \<and> layer_reachable A P V T (s', L\<lparr>waiting := fold spec_notify cs (waiting L)\<rparr>)"
  using assms
proof (induction cs arbitrary: s L)
  case (Cons c cs)
  have "os_rel A rep s (waiting L)" using layer_waiters [OF Cons.prems] by simp
  then obtain s1 where s1: "nrf_modem_os_event_notify A c s = Some s1" using notify_sim by blast
  from Cons.IH [OF layer_reachable.step [OF Cons.prems layer_step.wait [OF os_step.notify [OF s1]]]] s1 show ?case by simp
qed simp

end

section \<open>Properties\<close>

text \<open>
  C6: an interrupt wakes the threads it concerns. When a handler is installed, an interrupt returns and
  leaves the system in a reachable state; every sleeping thread is posted exactly as often as the
  library notifies its context (or all contexts) in answer to the pending channels, and each thread
  posted at least once then gets success from its wait.
\<close>

theorem interrupt_wakes:
  assumes "entry_list A rep" and "kernel_sync A V" and "layer_reachable A P V T (s, L)"
    and "handler icb = Some f" and "w \<in> set (waiting L)"
  shows "\<exists>s' h' ws w'. interrupt A lib icb pending s h = Some (Inr (s', h')) \<and>
    layer_reachable A P V T (s', L\<lparr>waiting := ws\<rparr>) \<and> w' \<in> set ws \<and> w_td w' = w_td w \<and>
    w_posts w' = w_posts w + length (filter (\<lambda>c. w_context w = c \<or> c = 0)
      (concat (map (\<lambda>i. lib f (of_nat i) (p_context icb)) (pending_channels pending)))) \<and>
    (0 < w_posts w' \<longrightarrow> fst (timedwait_leave A True val tmout (w_td w) s') = 0)"
proof -
  let ?cs = "concat (map (\<lambda>i. lib f (of_nat i) (p_context icb)) (pending_channels pending))"
  let ?ws = "fold spec_notify ?cs (waiting L)"
  obtain h' where h': "ipc_intr icb pending h = Inr h'"
    "shown handler_call (new_events h h') = map (\<lambda>i. (f, of_nat i, p_context icb)) (pending_channels pending)"
    using ipc_intr_calls [OF assms(4)] by blast
  obtain s' where s': "notify_all A ?cs s = Some s'" "layer_reachable A P V T (s', L\<lparr>waiting := ?ws\<rparr>)"
    using entry_list.notify_all_reaches [OF assms(1,3)] by blast
  obtain w' where w': "w' \<in> set ?ws" "w_td w' = w_td w"
    "w_posts w' = w_posts w + length (filter (\<lambda>c. w_context w = c \<or> c = 0) ?cs)"
    using spec_notifies [OF assms(5), of ?cs] by blast
  have "os_rel A rep s' ?ws" using entry_list.layer_waiters [OF assms(1) s'(2)] by simp
  from leave_posted [OF this w'(1) _ kernel_sync.posted_wait [OF assms(2)]] w'(2)
  have "0 < w_posts w' \<longrightarrow> fst (timedwait_leave A True val tmout (w_td w) s') = 0" by simp
  moreover have "interrupt A lib icb pending s h = Some (Inr (s', h'))"
    using h' s'(1) by (simp add: interrupt_def comp_def)
  ultimately show ?thesis using s'(2) w'
    by (intro exI [of _ s'] exI [of _ h'] exI [of _ ?ws] exI [of _ w'] conjI)
qed

text \<open>Channel 3 is pending and the library answers it by notifying context 7.\<close>

theorem interrupt_wakes_witness:
  "\<exists>s' h'. interrupt ring_api (\<lambda>f v p. if v = 3 then [7] else []) (m_ipc_cb\<lparr>handler := Some 9\<rparr>) 8 os_asleep [] =
      Some (Inr (s', h')) \<and> fst (timedwait_leave ring_api True 100 100000 5 s') = 0"
proof -
  have "pending_channels 8 = [3]" by (simp add: pending_channels_def IPC_CONF_NUM_def upt_rec bit_simps)
  then show ?thesis
    using interrupt_wakes [OF ring_list.entry_list_axioms ring_sync.kernel_sync_axioms os_asleep_reachable [of "{}"],
        of "m_ipc_cb\<lparr>handler := Some 9\<rparr>" 9 "waiter5 0" "\<lambda>f v p. if v = 3 then [7] else []" 8 "[]" 100 100000]
    by auto
qed

end
