(* ===== verification/Sockets.thy ===== *)
theory Sockets
  imports Platform
begin

text \<open>
  The life cycle of a modem socket as an automaton over socket calls and their results, and the
  contract that the socket clients of the application share (the locale \<open>socket_client\<close>): every
  run of a client is a walk of the automaton, whatever the modem answers.
\<close>

section \<open>Addresses\<close>

text \<open>
  All clients print the bytes of the resolved address and bind to the unspecified local address.
\<close>

definition ip_args :: "nrf_sockaddr_in \<Rightarrow> arg list" where
  "ip_args s = map (\<lambda>b. AInt (uint b)) (bytes_of_u32 (s_addr s))"

definition any_local_addr :: "platform \<Rightarrow> nrf_sockaddr_in" where
  "any_local_addr P = \<lparr>sin_family = NRF_AF_INET, sin_port = nrf_htons P 0, s_addr = 0\<rparr>"

section \<open>The life cycle\<close>

datatype sock_state = Unopened | Opened int | Bound int | Connected int | Closed int

text \<open>
  \<open>None\<close> is a call that is out of order: on a descriptor the modem did not hand out, before a
  successful bind or connect, or after the close. Resolving a name needs no socket.
\<close>

fun sock_step :: "sock_state \<Rightarrow> sock_call \<times> int \<Rightarrow> sock_state option" where
  "sock_step st (Nrf_getaddrinfo _ _ _, r) = Some st"
| "sock_step Unopened (Nrf_socket _ _ _, r) = Some (if r < 0 then Unopened else Opened r)"
| "sock_step (Opened fd) (Nrf_setsockopt fd' _, r) = (if fd' = fd then Some (Opened fd) else None)"
| "sock_step (Opened fd) (Nrf_bind fd' _, r) =
     (if fd' = fd then Some (if r = 0 then Bound fd else Opened fd) else None)"
| "sock_step (Bound fd) (Nrf_connect fd' _, r) =
     (if fd' = fd then Some (if r = 0 then Connected fd else Bound fd) else None)"
| "sock_step (Connected fd) (Nrf_send fd' _, r) = (if fd' = fd then Some (Connected fd) else None)"
| "sock_step (Connected fd) (Nrf_recv fd' _, r) = (if fd' = fd then Some (Connected fd) else None)"
| "sock_step (Connected fd) (Nrf_recvfrom fd' _, r) = (if fd' = fd then Some (Connected fd) else None)"
| "sock_step (Connected fd) (Nrf_poll fd' _ _, r) = (if fd' = fd then Some (Connected fd) else None)"
| "sock_step (Connected fd) (Nrf_close fd', r) = (if fd' = fd then Some (Closed fd) else None)"
| "sock_step st e = None"

fun sock_run :: "sock_state \<Rightarrow> (sock_call \<times> int) list \<Rightarrow> sock_state option" where
  "sock_run st [] = Some st"
| "sock_run st (e # es) = (case sock_step st e of None \<Rightarrow> None | Some st' \<Rightarrow> sock_run st' es)"

lemma sock_run_append:
  "sock_run st (es @ es') =
     (case sock_run st es of None \<Rightarrow> None | Some st' \<Rightarrow> sock_run st' es')"
  by (induction es arbitrary: st) (auto split: option.splits)

text \<open>What a state says about the calls that led to it.\<close>

definition opened :: "(sock_call \<times> int) list \<Rightarrow> int \<Rightarrow> bool" where
  "opened es fd = list_ex (\<lambda>(c, r). case c of Nrf_socket _ _ _ \<Rightarrow> r = fd | _ \<Rightarrow> False) es"

definition bound :: "(sock_call \<times> int) list \<Rightarrow> int \<Rightarrow> bool" where
  "bound es fd = list_ex (\<lambda>(c, r). case c of Nrf_bind fd' _ \<Rightarrow> fd' = fd \<and> r = 0 | _ \<Rightarrow> False) es"

definition connected :: "(sock_call \<times> int) list \<Rightarrow> int \<Rightarrow> bool" where
  "connected es fd = list_ex (\<lambda>(c, r). case c of Nrf_connect fd' _ \<Rightarrow> fd' = fd \<and> r = 0 | _ \<Rightarrow> False) es"

definition closed :: "(sock_call \<times> int) list \<Rightarrow> int \<Rightarrow> bool" where
  "closed es fd = list_ex (\<lambda>(c, r). c = Nrf_close fd) es"

lemmas seen_defs = opened_def bound_def connected_def closed_def

fun sock_inv :: "(sock_call \<times> int) list \<Rightarrow> sock_state \<Rightarrow> bool" where
  "sock_inv es Unopened = True"
| "sock_inv es (Opened fd) \<longleftrightarrow> opened es fd \<and> 0 \<le> fd"
| "sock_inv es (Bound fd) \<longleftrightarrow> opened es fd \<and> 0 \<le> fd \<and> bound es fd"
| "sock_inv es (Connected fd) \<longleftrightarrow> opened es fd \<and> 0 \<le> fd \<and> bound es fd \<and> connected es fd"
| "sock_inv es (Closed fd) \<longleftrightarrow> opened es fd \<and> 0 \<le> fd \<and> bound es fd \<and> connected es fd \<and>
     closed es fd"

lemma sock_step_inv:
  "sock_step st e = Some st' \<Longrightarrow> sock_inv es st \<Longrightarrow> sock_inv (es @ [e]) st'"
proof (induction st e rule: sock_step.induct)
  case (1 st a b c r)
  then show ?case by (cases st) (auto simp: seen_defs)
qed (auto simp: seen_defs split: if_splits)

lemma sock_run_inv: "sock_run Unopened es = Some st \<Longrightarrow> sock_inv es st"
proof (induction es arbitrary: st rule: rev_induct)
  case Nil
  then show ?case by auto
next
  case (snoc e es)
  then show ?case by (auto simp: sock_run_append split: option.splits intro: sock_step_inv)
qed

lemma sock_run_prefix:
  "sock_run st (es @ e # es') = Some st' \<Longrightarrow>
     \<exists>st1 st2. sock_run st es = Some st1 \<and> sock_step st1 e = Some st2"
  by (auto simp: sock_run_append split: option.splits)

section \<open>Following a run\<close>

text \<open>
  \<open>runs start st h\<close>: the history \<open>h\<close> extends \<open>start\<close> by a walk that ends in \<open>st\<close>.
\<close>

definition runs :: "history \<Rightarrow> sock_state \<Rightarrow> history \<Rightarrow> bool" where
  "runs start st h \<longleftrightarrow> (\<exists>evs. h = start @ evs \<and> sock_run Unopened (sock_events evs) = Some st)"

lemma runs_new_events: "runs start st h \<Longrightarrow> sock_run Unopened (sock_events (new_events start h)) = Some st"
  by (auto simp: runs_def)

lemma runs_refl: "runs h Unopened h"
  by (simp add: runs_def)

lemma runs_append:
  "runs start st h \<Longrightarrow> runs start st' (h @ evs) \<longleftrightarrow> sock_run st (sock_events evs) = Some st'"
  unfolding runs_def by (auto simp: sock_run_append)

section \<open>Sockets left open\<close>

text \<open>
  The number of sockets a sequence of calls opens minus the number it closes. For a walk of the
  automaton the final state tells it.
\<close>

fun opens_minus_closes :: "sock_call \<times> int \<Rightarrow> int" where
  "opens_minus_closes (Nrf_socket _ _ _, r) = (if r < 0 then 0 else 1)"
| "opens_minus_closes (Nrf_close _, r) = -1"
| "opens_minus_closes _ = 0"

definition balance :: "(sock_call \<times> int) list \<Rightarrow> int" where
  "balance es = sum_list (map opens_minus_closes es)"

lemma balance_simps [simp]:
  "balance [] = 0" "balance (e # es) = opens_minus_closes e + balance es"
  "balance (es @ es') = balance es + balance es'"
  by (simp_all add: balance_def)

fun holds_open :: "sock_state \<Rightarrow> int" where
  "holds_open Unopened = 0"
| "holds_open (Closed fd) = 0"
| "holds_open st = 1"

text \<open>Whether the calls created a socket; after a walk the final state tells it.\<close>

definition created :: "(sock_call \<times> int) list \<Rightarrow> bool" where
  "created es = list_ex (\<lambda>(c, r). case c of Nrf_socket _ _ _ \<Rightarrow> 0 \<le> r | _ \<Rightarrow> False) es"

lemma sock_step_created: "sock_step st e = Some st' \<Longrightarrow> st' \<noteq> Unopened \<longleftrightarrow> st \<noteq> Unopened \<or> created [e]"
  by (induction st e rule: sock_step.induct) (auto simp: created_def split: if_splits)

lemma sock_run_created: "sock_run st es = Some st' \<Longrightarrow> st' \<noteq> Unopened \<longleftrightarrow> st \<noteq> Unopened \<or> created es"
proof (induction es arbitrary: st)
  case (Cons e es)
  have "created (e # es) \<longleftrightarrow> created [e] \<or> created es" by (simp add: created_def)
  with Cons show ?case by (auto split: option.splits dest: sock_step_created)
qed (simp add: created_def)

lemma sock_step_balance: "sock_step st e = Some st' \<Longrightarrow> holds_open st' = holds_open st + opens_minus_closes e"
  by (induction st e rule: sock_step.induct) (auto split: if_splits)

lemma sock_run_balance: "sock_run st es = Some st' \<Longrightarrow> holds_open st' = holds_open st + balance es"
  by (induction es arbitrary: st) (auto split: option.splits dest: sock_step_balance)

lemma runs_balance: "runs h st h' \<Longrightarrow> \<exists>evs. h' = h @ evs \<and> balance (sock_events evs) = holds_open st"
  by (auto simp: runs_def dest: sock_run_balance)

section \<open>The contract of a client\<close>

locale socket_client =
  fixes client :: "platform \<Rightarrow> history \<Rightarrow> history"
  assumes walks: "\<exists>st. sock_run Unopened (sock_events (new_events h (client P h))) = Some st"
begin

lemma event_state:
  assumes "sock_events (new_events h (client P h)) = es @ (c, r) # es'"
  shows "\<exists>st1 st2. sock_run Unopened es = Some st1 \<and> sock_step st1 (c, r) = Some st2"
  using walks [where P = P and h = h] assms sock_run_prefix by fastforce

text \<open>
  Whatever is sent or received goes through a descriptor that this run obtained, bound and
  connected successfully.
\<close>

lemma transfer_connected:
  assumes "sock_events (new_events h (client P h)) = es @ (c, r) # es'"
    and "c \<in> {Nrf_send fd bs, Nrf_recv fd n, Nrf_recvfrom fd n}"
  shows "opened es fd \<and> bound es fd \<and> connected es fd"
proof -
  from event_state [OF assms(1)] obtain st1 st2
    where st1: "sock_run Unopened es = Some st1" "sock_step st1 (c, r) = Some st2" by blast
  with assms(2) have "st1 = Connected fd"
    by (cases st1) (auto split: if_splits)
  with sock_run_inv [OF st1(1)] show ?thesis by auto
qed

text \<open>A run never closes a descriptor it did not obtain.\<close>

lemma no_foreign_close:
  assumes "sock_events (new_events h (client P h)) = es @ (Nrf_close fd, r) # es'"
  shows "opened es fd"
proof -
  from event_state [OF assms] obtain st1 st2
    where st1: "sock_run Unopened es = Some st1" "sock_step st1 (Nrf_close fd, r) = Some st2" by blast
  then have "st1 = Connected fd" by (cases st1) (auto split: if_splits)
  with sock_run_inv [OF st1(1)] show ?thesis by auto
qed

end

end
