(* ===== verification/Ntp.thy ===== *)
theory Ntp
  imports Sockets
begin

text \<open>
  The NTP client (\<^verbatim>\<open>src/src/ntp.c\<close>): the message layout in memory, opening and connecting the
  UDP socket, the query, the reply and the conversion to Unix time.
\<close>

section \<open>The message\<close>

record ntp_msg =
  flags :: u8
  stratum :: u8
  poll :: u8
  precision :: u8
  rootdelay :: u32
  rootdisp :: u32
  refid :: u32
  reftime_sec :: u32
  reftime_frac :: u32
  org_sec :: u32
  org_frac :: u32
  rec_sec :: u32
  rec_frac :: u32
  xmt_sec :: u32
  xmt_frac :: u32

text \<open>The structure as the 48 bytes it occupies in memory, and back.\<close>

definition ntp_words :: "ntp_msg \<Rightarrow> u32 list" where
  "ntp_words m = [rootdelay m, rootdisp m, refid m, reftime_sec m, reftime_frac m, org_sec m,
     org_frac m, rec_sec m, rec_frac m, xmt_sec m, xmt_frac m]"

definition ntp_bytes :: "ntp_msg \<Rightarrow> u8 list" where
  "ntp_bytes m = [flags m, stratum m, poll m, precision m] @ concat (map bytes_of_u32 (ntp_words m))"

definition word_at :: "nat \<Rightarrow> u8 list \<Rightarrow> u32" where
  "word_at k bs = u32_of_bytes (take 4 (drop k bs))"

definition ntp_of_bytes :: "u8 list \<Rightarrow> ntp_msg" where
  "ntp_of_bytes bs = \<lparr>flags = bs ! 0, stratum = bs ! 1, poll = bs ! 2, precision = bs ! 3,
     rootdelay = word_at 4 bs, rootdisp = word_at 8 bs, refid = word_at 12 bs,
     reftime_sec = word_at 16 bs, reftime_frac = word_at 20 bs,
     org_sec = word_at 24 bs, org_frac = word_at 28 bs, rec_sec = word_at 32 bs,
     rec_frac = word_at 36 bs, xmt_sec = word_at 40 bs, xmt_frac = word_at 44 bs\<rparr>"

definition ntp_zero :: ntp_msg where
  "ntp_zero = ntp_of_bytes (replicate 48 0)"

text \<open>
  Receiving \<open>n\<close> bytes into the structure overwrites its first \<open>n\<close> bytes; the receive call is
  given the size of the structure and stores no more than that.
\<close>

definition ntp_store :: "u8 list \<Rightarrow> nat \<Rightarrow> ntp_msg \<Rightarrow> ntp_msg" where
  "ntp_store bs n m =
     (let data = take (min n 48) bs in ntp_of_bytes (data @ drop (length data) (ntp_bytes m)))"

section \<open>Constants\<close>

definition UDP_HOST :: string where [simp]: "UDP_HOST = ''time1.google.com''"

definition UDP_PORT :: u16 where [simp]: "UDP_PORT = 123"

definition NTP_TO_UNIX :: "u32 \<Rightarrow> u64" where "NTP_TO_UNIX x = ucast x - 2208988800"

definition ntp_timeout :: nrf_timeval where [simp]: "ntp_timeout = \<lparr>tv_sec = 5, tv_usec = 0\<rparr>"

section \<open>Operations\<close>

definition ntp_to_unixtime :: "ntp_msg \<Rightarrow> u32 \<times> ntp_msg" where
  "ntp_to_unixtime ntp =
     (let ntp = ntp\<lparr>org_frac := htobe32 (org_frac ntp), org_sec := htobe32 (org_sec ntp),
            reftime_frac := htobe32 (reftime_frac ntp), reftime_sec := htobe32 (reftime_sec ntp),
            rec_frac := htobe32 (rec_frac ntp), rec_sec := htobe32 (rec_sec ntp),
            xmt_frac := htobe32 (xmt_frac ntp), xmt_sec := htobe32 (xmt_sec ntp)\<rparr>;
          unixtime = ucast (NTP_TO_UNIX (xmt_sec ntp))
      in (unixtime, ntp))"

definition print_time :: "platform \<Rightarrow> u32 \<Rightarrow> history \<Rightarrow> int \<times> history" where
  "print_time P unixtime h =
     (case gmtime_text P unixtime of
        None \<Rightarrow> (-1, h)
      | Some time \<Rightarrow>
          (let h = printf ''Current Unix Time: %d'' [AInt (sint unixtime)] h;
               h = printf ''Current GMT Time %s'' [AStr time] h
           in (0, h)))"

text \<open>
  \<open>ntp_connect\<close> returns its error code and, when it got that far, the descriptor it stored
  through its first argument.
\<close>

definition ntp_connect :: "platform \<Rightarrow> nrf_sockaddr_in \<Rightarrow> history \<Rightarrow> int \<times> int option \<times> history" where
  "ntp_connect P server_addr h =
     (let pdn_id = 0;
          (fd, h) = sock P (Nrf_socket NRF_AF_INET NRF_SOCK_DGRAM NRF_IPPROTO_UDP) h
      in if fd < 0 then (-1, None, printf ''failed to create socket'' [] h)
      else let (error, h) = sock P (Nrf_setsockopt fd (NRF_SO_BINDTOPDN pdn_id)) h
      in if error \<noteq> 0 then (error, Some fd, printf ''could not bind to PDN'' [] h)
      else let (error, h) = sock P (Nrf_setsockopt fd (NRF_SO_SNDTIMEO ntp_timeout)) h
      in if error \<noteq> 0 then (error, Some fd, printf ''could not set sock opt'' [] h)
      else let (error, h) = sock P (Nrf_setsockopt fd (NRF_SO_RCVTIMEO ntp_timeout)) h
      in if error \<noteq> 0 then (error, Some fd, printf ''could not set sock opt'' [] h)
      else let s = server_addr;
               h = printf ''NTP Server IP address: %d.%d.%d.%d'' (ip_args s) h;
               s = s\<lparr>sin_port := nrf_htons P UDP_PORT\<rparr>;
               (error, h) = sock P (Nrf_bind fd (any_local_addr P)) h
      in if error \<noteq> 0 then (error, Some fd, printf ''could not bind to socket'' [] h)
      else let h = printf ''Connecting to NTP server...'' [] h;
               (error, h) = sock P (Nrf_connect fd s) h
      in if error \<noteq> 0 then (error, Some fd, printf ''could not connect to NTP server'' [] h)
      else (0, Some fd,
              printf ''Successfully connected to NTP server %s'' [AStr UDP_HOST] h))"

definition ntp_main :: "platform \<Rightarrow> history \<Rightarrow> int \<times> history" where
  "ntp_main P h =
     (let (error, h) = sock P (Nrf_getaddrinfo UDP_HOST ''pdn0'' NRF_AI_PDNSERV) h;
          server_addr = resolved P h
      in if error \<noteq> 0 then
           (error, printf ''could not resolve %s, error %d'' [AStr UDP_HOST, AInt error] h)
      else let (error, fd0, h) = ntp_connect P server_addr h
      in if error \<noteq> 0 then (error, printf ''could not connect to NTP server'' [] h)
      else let fd = the fd0;
               ntp = ntp_zero\<lparr>flags := 0x1b\<rparr>;
               (len, h) = sock P (Nrf_send fd (ntp_bytes ntp)) h
      in if len \<le> 0 then
           let h = printf ''could not send NTP query'' [] h;
               (_, h) = sock P (Nrf_close fd) h
           in (error, h)
      else let h = printf ''Waiting for NTP reply'' [] h;
               (len, h) = sock P (Nrf_recvfrom fd 48) h
      in if len \<le> 0 then
           let h = printf ''could not receive NTP response, error %d'' [AInt len] h;
               (_, h) = sock P (Nrf_close fd) h
           in (error, h)
      else let ntp = ntp_store (received P h) (nat len) ntp;
               h = printf ''Successfully received NTP response, len %d'' [AInt len] h;
               unixtime = fst (ntp_to_unixtime ntp);
               (_, h) = print_time P unixtime h;
               (_, h) = sock P (Nrf_close fd) h
           in (0, h))"

definition mdx_recv_timeout ::
    "platform \<Rightarrow> int \<Rightarrow> nat \<Rightarrow> u32 \<Rightarrow> history \<Rightarrow> int \<times> history" where
  "mdx_recv_timeout P fd len timeout h =
     (let h = printf ''len %d, timeout %d'' [AInt (int len), AInt (sint timeout)] h;
          (error, h) = sock P (Nrf_poll fd NRF_POLLIN (timeout * 1000)) h;
          ready = revents P h;
          h = printf ''nrf_poll returned %d'' [AInt error] h
      in if error = 0 then (-1, h)
         else if error < 0 then (-2, h)
         else if NRF_POLLIN \<in> set ready then sock P (Nrf_recv fd len) h
         else (0, h))"

section \<open>Lemmas\<close>

lemma length_ntp_bytes [simp]: "length (ntp_bytes m) = 48"
  by (simp add: ntp_bytes_def ntp_words_def)

lemma ntp_of_bytes_bytes [simp]: "ntp_of_bytes (ntp_bytes m) = m"
  by (simp add: ntp_of_bytes_def ntp_bytes_def ntp_words_def word_at_def)

lemma ntp_to_unixtime_eq: "fst (ntp_to_unixtime m) = htobe32 (xmt_sec m) - 2208988800"
proof -
  have "(ucast ((ucast x :: u64) - 2208988800) :: u32) = x - 2208988800" for x :: u32
    by transfer (simp add: take_bit_eq_mod mod_simps mod_mod_cancel)
  then show ?thesis by (simp add: ntp_to_unixtime_def NTP_TO_UNIX_def Let_def)
qed

lemma length_ntp_query [simp]: "length (ntp_bytes (ntp_zero\<lparr>flags := 27\<rparr>)) = 48"
  by simp

lemma ntp_zero_bytes: "ntp_bytes (ntp_zero\<lparr>flags := f\<rparr>) = f # replicate 47 0"
proof -
  have "word_at k (replicate 48 0) = 0" if "k \<in> {4, 8, 12, 16, 20, 24, 28, 32, 36, 40, 44}" for k
    using that by (auto simp: word_at_def numeral_eq_Suc)
  then show ?thesis
    by (simp add: ntp_zero_def ntp_of_bytes_def ntp_bytes_def ntp_words_def bytes_of_u32_def
        numeral_eq_Suc)
qed

text \<open>Where a run leaves the socket.\<close>

lemma ntp_connect_runs:
  assumes "runs start Unopened h"
  shows "post (ntp_connect P a h) (\<lambda>(error, fd0, h').
    (error = 0 \<longrightarrow> (\<exists>fd. fd0 = Some fd \<and> runs start (Connected fd) h')) \<and>
    (error \<noteq> 0 \<longrightarrow> runs start Unopened h' \<or> (\<exists>fd. runs start (Opened fd) h') \<or> (\<exists>fd. runs start (Bound fd) h')))"
  unfolding ntp_connect_def Let_def printf_def
  by (intro post_intros; rule postI) (simp_all add: runs_append [OF assms])

lemma print_time_runs: "post (print_time P t h) (\<lambda>(r, h'). \<forall>st. runs start st h \<longrightarrow> runs start st h')"
  by (auto simp: post_def print_time_def Let_def printf_def runs_append split: option.splits)

lemma ntp_main_runs:
  "post (ntp_main P h) (\<lambda>(r, h').
     runs h Unopened h' \<or> (\<exists>fd. runs h (Closed fd) h') \<and> r = 0 \<or>
     ((\<exists>fd. runs h (Opened fd) h') \<or> (\<exists>fd. runs h (Bound fd) h')) \<and> r \<noteq> 0)"
  unfolding ntp_main_def Let_def printf_def
  by (intro post_intros post_call3 [OF ntp_connect_runs [where start = h]]
      post_call2 [OF print_time_runs [where start = h]]; (rule postI)?)
    (auto simp: runs_append [OF runs_refl] runs_append)

interpretation ntp_client: socket_client "\<lambda>P h. snd (ntp_main P h)"
proof unfold_locales
  fix P h
  show "\<exists>st. sock_run Unopened (sock_events (new_events h (snd (ntp_main P h)))) = Some st"
    using postD [OF ntp_main_runs surjective_pairing] runs_new_events by fastforce
qed

section \<open>Properties\<close>

text \<open>
  The time is right for every Unix time that fits 32 bits, also after the NTP second counter
  has wrapped in 2036: if the server's transmit field holds, in network byte order, the NTP
  seconds of the moment \<open>t\<close>, the client computes \<open>t\<close>.
\<close>

lemma ntp_time_roundtrip:
  "fst (ntp_to_unixtime (m\<lparr>xmt_sec := htobe32 (t + 2208988800)\<rparr>)) = t"
  by (simp add: ntp_to_unixtime_eq)

text \<open>
  The message survives the byte layout it is sent and received in, and the query that
  \<open>ntp_main\<close> sends is a 48-byte version 3 client request: the byte 0x1b and 47 zeros.
\<close>

lemma ntp_layout_roundtrip:
  "ntp_of_bytes (ntp_bytes m) = m \<and> ntp_bytes (ntp_zero\<lparr>flags := 0x1b\<rparr>) = 0x1b # replicate 47 0"
  by (simp add: ntp_zero_bytes)

lemma word_at_store:
  assumes "length (take (min n 48) bs) = d"
  shows "xmt_sec (ntp_store bs n m) = u32_of_bytes (take 4 (drop 40 (take (min n 48) bs @ drop d (ntp_bytes m))))"
  using assms by (simp add: ntp_store_def ntp_of_bytes_def word_at_def Let_def)

lemma xmt_sec_long:
  assumes "44 \<le> n" and "44 \<le> length bs"
  shows "xmt_sec (ntp_store bs n m) = u32_of_bytes (take 4 (drop 40 bs))"
proof -
  have "take 4 (drop 40 (take (min n 48) bs @ drop d ys)) = take 4 (drop 40 bs)" for d and ys :: "u8 list"
    using assms by (auto simp: take_drop min_def)
  then show ?thesis by (simp add: word_at_store [OF refl])
qed

lemma xmt_sec_short:
  assumes "n \<le> 40"
  shows "xmt_sec (ntp_store bs n m) = xmt_sec m"
proof -
  let ?d = "length (take (min n 48) bs)"
  have "?d \<le> 40" using assms by simp
  then have "drop 40 (take (min n 48) bs @ drop ?d (ntp_bytes m)) = drop 40 (ntp_bytes m)"
    by (simp add: drop_append)
  then have "xmt_sec (ntp_store bs n m) = xmt_sec (ntp_of_bytes (ntp_bytes m))"
    unfolding word_at_store [OF refl] by (simp add: ntp_of_bytes_def word_at_def)
  then show ?thesis by simp
qed

text \<open>
  C31: what the client makes of a reply of \<open>n\<close> bytes. From 44 bytes on, the result is the
  big-endian word at offset 40 less the epoch offset. The code accepts any positive length:
  a reply of at most 40 bytes leaves the transmit field of the zeroed query in place, and the
  client reports the fixed moment 2085978496 (in February 2036).
\<close>

theorem ntp_reply_time:
  "(44 \<le> n \<and> 44 \<le> length bs \<longrightarrow>
      fst (ntp_to_unixtime (ntp_store bs n m)) = u32_of_bytes (rev (take 4 (drop 40 bs))) - 2208988800) \<and>
   (n \<le> 40 \<longrightarrow>
      fst (ntp_to_unixtime (ntp_store bs n (ntp_zero\<lparr>flags := 0x1b\<rparr>))) = 2085978496)"
proof -
  have "htobe32 (u32_of_bytes (take 4 (drop 40 bs))) = u32_of_bytes (rev (take 4 (drop 40 bs)))"
    if "44 \<le> length bs"
    using that by (simp add: htobe32_def bytes_of_u32_of_bytes)
  moreover have "xmt_sec ntp_zero = 0"
    by (simp add: ntp_zero_def ntp_of_bytes_def word_at_def numeral_eq_Suc)
  moreover have "htobe32 0 = 0"
    by (simp add: htobe32_def bytes_of_u32_def)
  ultimately show ?thesis
    by (simp add: ntp_to_unixtime_eq xmt_sec_long xmt_sec_short)
qed

theorem ntp_reply_time_witness:
  "fst (ntp_to_unixtime (ntp_store (replicate 40 0 @ [0x83, 0xaa, 0x7e, 0x81]) 44 ntp_zero)) = 1 \<and>
   fst (ntp_to_unixtime (ntp_store [0x1c] 1 (ntp_zero\<lparr>flags := 0x1b\<rparr>))) = 2085978496"
proof -
  have "u32_of_bytes (rev (take 4 (drop 40 (replicate 40 0 @ [0x83, 0xaa, 0x7e, 0x81])))) = 2208988801"
    by (simp add: drop_append)
  then show ?thesis
    using ntp_reply_time [of 44 "replicate 40 0 @ [0x83, 0xaa, 0x7e, 0x81]" ntp_zero]
      ntp_reply_time [of 1 "[0x1c]" ntp_zero]
    by simp
qed

text \<open>
  C19: whatever the modem answers, \<open>ntp_main\<close> uses its socket in order (open, options, bind,
  connect, transfer, close). If it ends with the socket closed it returns 0, also when the
  exchange failed; if it returns an error after opening the socket, the descriptor is left open.
\<close>

theorem ntp_main_socket_use:
  "\<exists>st. sock_run Unopened (sock_events (new_events h (snd (ntp_main P h)))) = Some st \<and>
     (st = Unopened \<or> (\<exists>fd. st = Closed fd) \<and> fst (ntp_main P h) = 0 \<or>
      (\<exists>fd. st = Opened fd \<or> st = Bound fd) \<and> fst (ntp_main P h) \<noteq> 0)"
  using postD [OF ntp_main_runs surjective_pairing] runs_new_events by fastforce

text \<open>
  Every byte \<open>ntp_main\<close> sends or receives goes through a descriptor that the same run
  opened, bound and connected.
\<close>

lemma ntp_transfer_connected:
  assumes "sock_events (new_events h (snd (ntp_main P h))) = es @ (c, r) # es'"
    and "c \<in> {Nrf_send fd bs, Nrf_recvfrom fd n}"
  shows "opened es fd \<and> bound es fd \<and> connected es fd"
  using ntp_client.transfer_connected [OF assms(1), where fd = fd and bs = bs and n = n] assms(2) by blast

lemma ntp_all_ok_events:
  "sock_events (snd (ntp_main all_ok [])) =
     [(Nrf_getaddrinfo ''time1.google.com'' ''pdn0'' NRF_AI_PDNSERV, 0),
      (Nrf_socket NRF_AF_INET NRF_SOCK_DGRAM NRF_IPPROTO_UDP, 3),
      (Nrf_setsockopt 3 (NRF_SO_BINDTOPDN 0), 0),
      (Nrf_setsockopt 3 (NRF_SO_SNDTIMEO \<lparr>tv_sec = 5, tv_usec = 0\<rparr>), 0),
      (Nrf_setsockopt 3 (NRF_SO_RCVTIMEO \<lparr>tv_sec = 5, tv_usec = 0\<rparr>), 0),
      (Nrf_bind 3 (any_local_addr all_ok), 0),
      (Nrf_connect 3 \<lparr>sin_family = NRF_AF_INET, sin_port = nrf_htons all_ok 123, s_addr = 0x0100007f\<rparr>, 0),
      (Nrf_send 3 (0x1b # replicate 47 0), 48), (Nrf_recvfrom 3 48, 48), (Nrf_close 3, 0)]"
  by (simp add: ntp_main_def ntp_connect_def print_time_def Let_def run_simps all_ok_def ntp_zero_bytes)

end
