(* ===== verification/Http.thy ===== *)
theory Http
  imports Sockets
begin

text \<open>
  The HTTP download (\<^verbatim>\<open>src/src/http.c\<close>): the callbacks the HTTP library of the kernel tree
  makes into the application (open, read, write, close and the rest), the progress callback with
  its speed computation, and \<open>httpc_main\<close>. The library itself is a parameter: which callbacks
  it makes, in which order and with which arguments, is any list of \<open>http_op\<close>. The list is finite: a run
  of the library that never ends is not modelled, and no property says that a download ends.
\<close>

section \<open>Callbacks\<close>

text \<open>
  \<open>httpc_open\<close> panics on every failure; otherwise it returns 0 and stores the descriptor
  through its second argument.
\<close>

definition httpc_open ::
    "platform \<Rightarrow> string \<Rightarrow> u16 \<Rightarrow> int \<Rightarrow> history \<Rightarrow> (int \<times> int) outcome \<times> history" where
  "httpc_open P domain port use_ssl h =
     (let h = printf ''domain %s port %d use_ssl %d'' [AStr domain, AInt (uint port), AInt use_ssl] h;
          pdn_id = 0;
          (fd, h) = sock P (Nrf_socket NRF_AF_INET NRF_SOCK_STREAM NRF_IPPROTO_TCP) h
      in if fd < 0 then panic ''failed to create socket'' [] h
      else let (_, h) = sock P (Nrf_setsockopt fd (NRF_SO_BINDTOPDN pdn_id)) h;
               (error, h) = sock P (Nrf_getaddrinfo domain ''pdn0'' NRF_AI_PDNSERV) h;
               s = resolved P h
      in if error \<noteq> 0 then panic ''getaddrinfo failed with error %d'' [AInt error] h
      else let h = printf ''Server IP address: %d.%d.%d.%d'' (ip_args s) h;
               s = s\<lparr>sin_port := nrf_htons P port\<rparr>;
               (error, h) = sock P (Nrf_bind fd (any_local_addr P)) h
      in if error \<noteq> 0 then panic ''Bind failed: %d'' [AInt error] h
      else let h = printf ''Connecting to server...'' [] h;
               (error, h) = sock P (Nrf_connect fd s) h
      in if error \<noteq> 0 then panic ''TCP connect failed: error %d'' [AInt error] h
      else (Returned (0, fd), printf ''Successfully connected to the server'' [] h))"

definition httpc_close :: "history \<Rightarrow> int \<times> history" where
  "httpc_close h = (0, printf ''httpc_close'' [] h)"

definition httpc_allocator :: "history \<Rightarrow> u32 \<times> history" where
  "httpc_allocator h = (0, printf ''httpc_allocator'' [] h)"

text \<open>
  \<open>httpc_read\<close> returns its code, the bytes stored in the buffer and the new value of
  \<open>*length\<close>; \<open>httpc_write\<close> its code and the new value of \<open>*length\<close>.
\<close>

definition httpc_read :: "platform \<Rightarrow> int \<Rightarrow> nat \<Rightarrow> history \<Rightarrow> (int \<times> u8 list \<times> nat) \<times> history" where
  "httpc_read P fd len h =
     (let (error, h) = sock P (Nrf_recv fd len) h
      in if error \<ge> 0 then ((0, take (nat error) (received P h), nat error), h)
         else ((error, [], len), printf ''error %d'' [AInt error] h))"

definition httpc_write :: "platform \<Rightarrow> int \<Rightarrow> u8 list \<Rightarrow> history \<Rightarrow> (int \<times> nat) \<times> history" where
  "httpc_write P fd buf h =
     (let len = length buf;
          h = printf ''sending len %d data %s'' [AInt (int len), AStr (map (\<lambda>b. char_of (unat b)) buf)] h;
          (error, h) = sock P (Nrf_send fd buf) h;
          h = printf ''error %d'' [AInt error] h
      in if error > 0 then ((0, len), h) else ((error, len), h))"

definition httpc_sleep :: "history \<Rightarrow> int \<times> history" where
  "httpc_sleep h = (0, printf ''httpc_sleep'' [] h)"

definition httpc_time :: "history \<Rightarrow> int \<times> history" where
  "httpc_time h = (0, printf ''httpc_time'' [] h)"

definition httpc_logger :: "history \<Rightarrow> int \<times> history" where
  "httpc_logger h = (0, printf ''httpc_logger'' [] h)"

text \<open>
  The progress callback divides by the whole seconds since the start; a division by zero does
  not return a value and is \<open>None\<close>.
\<close>

definition httpc_dump_cb :: "platform \<Rightarrow> u64 \<Rightarrow> u32 \<Rightarrow> history \<Rightarrow> int option \<times> history" where
  "httpc_dump_cb P time_started position h =
     (let (up, h) = mdx_uptime P h;
          delta = (ucast (up div 1000000) :: u32);
          delta = (ucast ((ucast delta :: u64) - time_started) :: u32);
          kbit = position * 8;
          kbit = kbit div 1000
      in if delta = 0 then (None, h)
         else let speed = kbit div delta
              in (Some 0, printf ''speed %d kbit/s, position %d'' [AInt (sint speed), AInt (sint position)] h))"

section \<open>A download\<close>

text \<open>
  The library keeps the descriptor that the last open stored and passes it to reads and writes.
  A panic or a division by zero ends the run.
\<close>

fun http_step :: "platform \<Rightarrow> u64 \<Rightarrow> http_op \<Rightarrow> int \<Rightarrow> history \<Rightarrow> int outcome \<times> history" where
  "http_step P ts (Http_open domain port ssl) fd h =
     (case httpc_open P domain port ssl h of
        (Panicked, h) \<Rightarrow> (Panicked, h) | (Returned (r, fd'), h) \<Rightarrow> (Returned fd', h))"
| "http_step P ts (Http_read n) fd h = (Returned fd, snd (httpc_read P fd n h))"
| "http_step P ts (Http_write bs) fd h = (Returned fd, snd (httpc_write P fd bs h))"
| "http_step P ts (Http_dump bs pos) fd h =
     (case httpc_dump_cb P ts pos h of
        (None, h) \<Rightarrow> (Panicked, h) | (Some r, h) \<Rightarrow> (Returned fd, h))"
| "http_step P ts Http_close fd h = (Returned fd, snd (httpc_close h))"
| "http_step P ts (Http_alloc _ _) fd h = (Returned fd, snd (httpc_allocator h))"
| "http_step P ts (Http_sleep _) fd h = (Returned fd, snd (httpc_sleep h))"
| "http_step P ts Http_time fd h = (Returned fd, snd (httpc_time h))"
| "http_step P ts Http_log fd h = (Returned fd, snd (httpc_logger h))"

fun http_steps :: "platform \<Rightarrow> u64 \<Rightarrow> http_op list \<Rightarrow> int \<Rightarrow> history \<Rightarrow> int outcome \<times> history" where
  "http_steps P ts [] fd h = (Returned fd, h)"
| "http_steps P ts (c # cs) fd h =
     (case http_step P ts c fd h of
        (Panicked, h) \<Rightarrow> (Panicked, h) | (Returned fd, h) \<Rightarrow> http_steps P ts cs fd h)"

definition httpc_main :: "platform \<Rightarrow> history \<Rightarrow> int outcome \<times> history" where
  "httpc_main P h =
     (let (up, h) = mdx_uptime P h;
          time_started = up div 1000000
      in case http_steps P time_started (http_script P h ''http://xdma.org/static/128mb'') (http_socket P) h of
           (Panicked, h) \<Rightarrow> (Panicked, h) | (Returned _, h) \<Rightarrow> (Returned 0, h))"

section \<open>Lemmas\<close>

lemma httpc_open_runs:
  assumes "runs start Unopened h"
  shows "post (httpc_open P domain port ssl h) (\<lambda>(r, h').
    (\<exists>st. runs start st h') \<and> (\<forall>fd. r = Returned (0, fd) \<longrightarrow> runs start (Connected fd) h') \<and>
    (\<forall>e fd. r = Returned (e, fd) \<longrightarrow> e = 0))"
  unfolding httpc_open_def Let_def printf_def panic_def
  by (intro post_intros; rule postI) (simp_all add: runs_append [OF assms])

lemma httpc_read_runs:
  "post (httpc_read P fd n h) (\<lambda>(r, h'). runs start (Connected fd) h \<longrightarrow> runs start (Connected fd) h')"
  unfolding httpc_read_def Let_def printf_def
  by (intro post_intros; rule postI) (auto simp: runs_append)

lemma httpc_write_runs:
  "post (httpc_write P fd bs h) (\<lambda>(r, h'). runs start (Connected fd) h \<longrightarrow> runs start (Connected fd) h')"
  unfolding httpc_write_def Let_def printf_def
  by (intro post_intros; rule postI) (auto simp: runs_append)

lemma httpc_dump_runs:
  "post (httpc_dump_cb P ts pos h) (\<lambda>(r, h'). runs start st h \<longrightarrow> runs start st h')"
  unfolding httpc_dump_cb_def Let_def printf_def
  by (intro post_intros; rule postI) (auto simp: runs_append)

fun is_open :: "http_op \<Rightarrow> bool" where
  "is_open (Http_open _ _ _) = True"
| "is_open _ = False"

lemma http_step_runs:
  assumes "\<not> is_open c" and "runs start (Connected fd) h"
  shows "post (http_step P ts c fd h) (\<lambda>(r, h').
    runs start (Connected fd) h' \<and> (r = Returned fd \<or> r = Panicked))"
  using assms httpc_read_runs [of P fd _ h start] httpc_write_runs [of P fd _ h start]
    httpc_dump_runs [of P ts _ h start "Connected fd"]
  by (cases c) (auto simp: post_def split_beta httpc_close_def httpc_allocator_def httpc_sleep_def
      httpc_time_def httpc_logger_def printf_def runs_append split: option.splits prod.splits)

lemma http_steps_runs:
  assumes "\<forall>c \<in> set cs. \<not> is_open c" and "runs start (Connected fd) h"
  shows "runs start (Connected fd) (snd (http_steps P ts cs fd h))"
  using assms
proof (induction cs arbitrary: h)
  case Nil
  then show ?case by simp
next
  case (Cons c cs)
  obtain r h' where s: "http_step P ts c fd h = (r, h')" by fastforce
  with postD [OF http_step_runs [of c start fd h P ts] s] Cons.prems
  have "runs start (Connected fd) h'" and "r = Returned fd \<or> r = Panicked" by auto
  with s Cons show ?case by auto
qed

section \<open>Properties\<close>

text \<open>
  C20: for every sequence of callbacks that opens the connection first and once, and whatever the
  modem answers, the download uses its socket in order: the reads and writes go through the
  descriptor that was opened, bound and connected. No callback sequence ever closes it: a download
  that ends leaves the connection open, since \<open>httpc_close\<close> makes no socket call.
\<close>

theorem httpc_session:
  assumes "http_script P (h @ [Uptime (uptime_us P h)]) ''http://xdma.org/static/128mb'' = Http_open d p ssl # cs"
    and "\<forall>c \<in> set cs. \<not> is_open c"
  shows "\<exists>st. sock_run Unopened (sock_events (new_events h (snd (httpc_main P h)))) = Some st \<and>
    (fst (httpc_main P h) = Returned 0 \<longrightarrow> (\<exists>fd. st = Connected fd))"
proof -
  define ts where "ts = uptime_us P h div 1000000"
  define h1 where "h1 = h @ [Uptime (uptime_us P h)]"
  have r1: "runs h Unopened h1"
    unfolding h1_def by (simp add: runs_append [OF runs_refl])
  obtain r h2 where s: "httpc_open P d p ssl h1 = (r, h2)" by fastforce
  note open2 = postD [OF httpc_open_runs [OF r1, of P d p ssl] s]
  have main: "httpc_main P h = (case http_steps P ts (Http_open d p ssl # cs) (http_socket P) h1 of
      (Panicked, h) \<Rightarrow> (Panicked, h) | (Returned _, h) \<Rightarrow> (Returned 0, h))"
    using assms(1) by (simp add: httpc_main_def mdx_uptime_def ts_def h1_def)
  show ?thesis
  proof (cases r)
    case Panicked
    with main s open2 show ?thesis using runs_new_events by auto
  next
    case (Returned x)
    then obtain fd where fd: "r = Returned (0, fd)" using open2 by (cases x) auto
    with open2 have "runs h (Connected fd) (snd (http_steps P ts cs fd h2))"
      by (intro http_steps_runs [OF assms(2)]) auto
    moreover have "snd (httpc_main P h) = snd (http_steps P ts cs fd h2)"
      using main s fd by (auto split: outcome.splits prod.splits)
    ultimately show ?thesis using runs_new_events by fastforce
  qed
qed

theorem httpc_session_witness:
  "fst (httpc_main all_ok []) = Returned 0 \<and>
   sock_run Unopened (sock_events (snd (httpc_main all_ok []))) = Some (Connected 3)"
proof -
  have "fst (httpc_main all_ok []) = Returned 0"
    by (simp add: httpc_main_def httpc_open_def httpc_read_def httpc_write_def httpc_close_def
        Let_def run_simps all_ok_def)
  moreover have "sock_events (snd (httpc_main all_ok [])) =
      (Nrf_socket NRF_AF_INET NRF_SOCK_STREAM NRF_IPPROTO_TCP, 3) # tl (sock_events (snd (httpc_main all_ok [])))"
    by (simp add: httpc_main_def httpc_open_def httpc_read_def httpc_write_def httpc_close_def
        Let_def run_simps all_ok_def)
  moreover have "\<exists>st. sock_run Unopened (sock_events (new_events [] (snd (httpc_main all_ok [])))) = Some st \<and>
      (fst (httpc_main all_ok []) = Returned 0 \<longrightarrow> (\<exists>fd. st = Connected fd))"
    by (rule httpc_session [of all_ok "[]" "''xdma.org''" 80 0 "[Http_write [71, 69, 84], Http_read 16, Http_close]"])
      (simp_all add: all_ok_def)
  ultimately show ?thesis
    by (simp add: httpc_main_def httpc_open_def httpc_read_def httpc_write_def httpc_close_def
        Let_def run_simps all_ok_def)
qed

lemma ucast_delta:
  assumes "unat (up div 1000000 :: u64) = unat ts + d" and "unat ts + d < 2 ^ 32"
  shows "(ucast ((ucast (ucast (up div 1000000) :: u32) :: u64) - ts) :: u32) = word_of_nat d"
proof -
  let ?u = "up div 1000000"
  have d: "unat (word_of_nat d :: u64) = d" "unat (ts + word_of_nat d) = unat ts + d"
    using assms(2) by (simp_all add: unat_word_ariths unsigned_of_nat take_bit_nat_eq_self)
  have up: "?u = ts + word_of_nat d"
    using assms(1) d by (simp add: word_unat_eq_iff)
  have "(ucast (ucast ?u :: u32) :: u64) = ?u"
    using assms by (intro ucast_through_u32) simp
  then have "(ucast ((ucast (ucast ?u :: u32) :: u64) - ts) :: u32) = ucast (word_of_nat d :: u64)"
    by (simp add: up)
  also have "\<dots> = word_of_nat d"
    using d(1) assms(2) by (simp add: word_unat_eq_iff unsigned_ucast_eq unsigned_of_nat)
  finally show ?thesis .
qed

lemma speed_word:
  assumes "unat (position :: u32) < 2 ^ 29" and "d < 2 ^ 32"
  shows "sint (position * 8 div 1000 div word_of_nat d) = int (unat position * 8 div 1000 div d)"
proof -
  have "unat (position * 8) = unat position * 8"
    using assms(1) by (simp add: unat_word_ariths)
  then have u: "unat (position * 8 div 1000 div word_of_nat d) = unat position * 8 div 1000 div d"
    using assms(2) by (simp add: unat_div_distrib unsigned_of_nat take_bit_nat_eq_self)
  have "unat position * 8 div 1000 div d \<le> unat position * 8 div 1000" by simp
  also have "\<dots> < 2 ^ 31" using assms(1) by simp
  finally have "unat (position * 8 div 1000 div word_of_nat d) < 2 ^ 31" by (simp add: u)
  then show ?thesis
    using u sint_of_small by metis
qed

text \<open>
  C36: the transfer speed the progress callback prints. Up to 2^29 bytes, and with \<open>d\<close> whole
  seconds since the start, it is the number of kilobits divided by \<open>d\<close>, with no overflow on
  the way; in the first second (\<open>d = 0\<close>) the callback divides by zero.
\<close>

theorem httpc_speed:
  assumes "unat (uptime_us P h div 1000000) = unat time_started + d"
    and "unat time_started + d < 2 ^ 32" and "unat position < 2 ^ 29"
  shows "httpc_dump_cb P time_started position h =
    (if d = 0 then (None, h @ [Uptime (uptime_us P h)])
     else (Some 0, h @ [Uptime (uptime_us P h), Printf ''speed %d kbit/s, position %d''
             [AInt (int (unat position * 8 div 1000 div d)), AInt (int (unat position))]]))"
proof -
  have "(word_of_nat d :: u32) = 0 \<longleftrightarrow> d = 0"
    using assms(2) by (simp add: word_unat_eq_iff unsigned_of_nat take_bit_nat_eq_self)
  moreover have "unat position < 2 ^ 31" using assms(3) by simp
  then have "sint position = int (unat position)"
    by (rule sint_of_small)
  moreover have "sint (position * 8 div 1000 div word_of_nat d) = int (unat position * 8 div 1000 div d)"
    using assms by (intro speed_word) auto
  ultimately show ?thesis
    by (simp add: httpc_dump_cb_def mdx_uptime_def printf_def Let_def ucast_delta [OF assms(1,2)])
qed

theorem httpc_speed_witness:
  "httpc_dump_cb (all_ok\<lparr>uptime_us := (\<lambda>_. 12500000)\<rparr>) 10 1000000 [] =
     (Some 0, [Uptime 12500000, Printf ''speed %d kbit/s, position %d'' [AInt 4000, AInt 1000000]]) \<and>
   httpc_dump_cb all_ok 0 1000000 [] = (None, [Uptime 0])"
  using httpc_speed [of "all_ok\<lparr>uptime_us := (\<lambda>_. 12500000)\<rparr>" "[]" 10 2 1000000]
    httpc_speed [of all_ok "[]" 0 0 1000000]
  by (simp add: all_ok_def)

text \<open>
  \<open>httpc_write\<close> returns the modem's error when nothing could be sent and 0 otherwise, and
  always leaves the length it was given: a partial send is reported as a complete one.
\<close>

lemma httpc_write_result:
  "fst (httpc_write P fd buf h) =
     (min 0 (sock_ret P (h @ [Printf ''sending len %d data %s''
         [AInt (int (length buf)), AStr (map (\<lambda>b. char_of (unat b)) buf)]]) (Nrf_send fd buf)), length buf)"
  by (simp add: httpc_write_def sock_def printf_def Let_def min_def)

end
