(* ===== verification/Float32.thy ===== *)
theory Float32
  imports Prelude
begin

text \<open>
  Single-precision numbers as the target provides them: IEEE 754 binary32 with rounding to nearest,
  ties to even. Used by the floating-point test of \<^verbatim>\<open>src/src/gps.c\<close> and by the signal quality that
  \<^verbatim>\<open>src/src/main.c\<close> prints.
\<close>

section \<open>Single precision\<close>

text \<open>
  Every finite binary32 number is a multiple of $2^{-149}$; \<open>Finite k\<close> is the number with the
  integer \<open>k\<close> as that multiple. The two zeros are not distinguished.
\<close>

datatype f32 = Finite int | Infinite bool | Not_a_number

text \<open>The number of bits of a magnitude beyond the 24 of a significand.\<close>

fun excess :: "nat \<Rightarrow> nat" where
  "excess k = (if k < 2 ^ 24 then 0 else Suc (excess (k div 2)))"

declare excess.simps [simp del]

text \<open>Rounding to a multiple of \<open>2 ^ s\<close>, and to 24 significant bits.\<close>

definition round_even :: "nat \<Rightarrow> int \<Rightarrow> int" where
  "round_even s k =
     (let q = k div 2 ^ s; r = k mod 2 ^ s
      in (if 2 * r > 2 ^ s \<or> (2 * r = 2 ^ s \<and> odd q) then q + 1 else q) * 2 ^ s)"

definition round24 :: "int \<Rightarrow> int" where
  "round24 k = round_even (excess (nat \<bar>k\<bar>)) k"

definition f32_round :: "int \<Rightarrow> f32" where
  "f32_round k = (let r = round24 k in if \<bar>r\<bar> < 2 ^ 277 then Finite r else Infinite (r < 0))"

fun f32_add :: "f32 \<Rightarrow> f32 \<Rightarrow> f32" where
  "f32_add (Finite x) (Finite y) = f32_round (x + y)"
| "f32_add (Infinite n) (Infinite m) = (if n = m then Infinite n else Not_a_number)"
| "f32_add (Infinite n) (Finite y) = Infinite n"
| "f32_add (Finite x) (Infinite m) = Infinite m"
| "f32_add Not_a_number _ = Not_a_number"
| "f32_add _ Not_a_number = Not_a_number"

section \<open>Rounding\<close>

lemma excess_between: "2 ^ (23 + s) \<le> k \<Longrightarrow> k < 2 ^ (24 + s) \<Longrightarrow> excess k = s"
proof (induction s arbitrary: k)
  case 0
  then show ?case by (simp add: excess.simps)
next
  case (Suc s)
  from Suc.prems have "2 * 2 ^ (23 + s) \<le> k" "k < 2 * 2 ^ (24 + s)"
    by (simp_all only: add_Suc_right power_Suc)
  then have "2 ^ (23 + s) \<le> k div 2" "k div 2 < 2 ^ (24 + s)"
    by (simp_all only: less_eq_div_iff_mult_less_eq zero_less_numeral div_less_iff_less_mult mult.commute)
  then have "excess (k div 2) = s" by (rule Suc.IH)
  moreover have "(2 :: nat) ^ 24 \<le> k"
  proof -
    have "(2 :: nat) ^ 24 \<le> 2 ^ (23 + Suc s)" by (rule power_increasing) simp_all
    with Suc.prems(1) show ?thesis by linarith
  qed
  ultimately show ?case by (simp add: excess.simps [of k])
qed

lemma round_even_unique:
  assumes "2 ^ s dvd c" and "2 * \<bar>k - c\<bar> < 2 ^ s"
  shows "round_even s k = c"
proof -
  from assms(1) obtain q where c: "c = 2 ^ s * q" by (auto elim: dvdE)
  show ?thesis
  proof (cases "c \<le> k")
    case True
    with assms(2) have r: "0 \<le> k - c" "k - c < 2 ^ s" "2 * (k - c) < 2 ^ s" by auto
    have "k = 2 ^ s * q + (k - c)" by (simp add: c)
    from int_div_pos_eq [OF this r(1,2)] int_mod_pos_eq [OF this r(1,2)] r c show ?thesis
      by (simp add: round_even_def Let_def mult.commute)
  next
    case False
    define r where "r = k - c + 2 ^ s"
    have k: "k = 2 ^ s * (q - 1) + r" by (simp add: c r_def algebra_simps)
    from False assms(2) have r: "0 \<le> r" "r < 2 ^ s" "2 ^ s < 2 * r" by (auto simp: r_def)
    from int_div_pos_eq [OF k r(1,2)] int_mod_pos_eq [OF k r(1,2)] r c show ?thesis
      by (simp add: round_even_def Let_def mult.commute)
  qed
qed

text \<open>Rounding a positive number whose size is known, also when it is scaled.\<close>

lemma round24_nearest:
  assumes "2 ^ (23 + s) \<le> k" and "k < 2 ^ (24 + s)" and "2 ^ s dvd c" and "2 * \<bar>k - c\<bar> < 2 ^ s"
  shows "round24 (k * 2 ^ j) = c * 2 ^ j"
proof -
  have k: "0 < k" using assms(1) by (rule order.strict_trans2 [rotated]) simp
  have "excess (nat \<bar>k * 2 ^ j\<bar>) = s + j"
  proof (rule excess_between)
    have "2 ^ (23 + (s + j)) \<le> k * 2 ^ j" "k * 2 ^ j < 2 ^ (24 + (s + j))"
      using assms(1,2) by (simp_all only: power_add mult_le_cancel_right mult_less_cancel_right flip: mult.assoc) auto
    with k show "2 ^ (23 + (s + j)) \<le> nat \<bar>k * 2 ^ j\<bar>" "nat \<bar>k * 2 ^ j\<bar> < 2 ^ (24 + (s + j))"
      by (simp_all add: nat_le_iff nat_less_iff le_nat_iff)
  qed
  moreover have "round_even (s + j) (k * 2 ^ j) = c * 2 ^ j"
  proof (rule round_even_unique)
    show "2 ^ (s + j) dvd c * 2 ^ j" using assms(3) by (simp add: power_add)
    have "2 * \<bar>k - c\<bar> * 2 ^ j < 2 ^ s * 2 ^ j" using assms(4) by simp
    then show "2 * \<bar>k * 2 ^ j - c * 2 ^ j\<bar> < 2 ^ (s + j)"
      by (simp add: power_add abs_mult flip: left_diff_distrib)
  qed
  ultimately show ?thesis by (simp add: round24_def)
qed

lemma round24_exact:
  assumes "0 \<le> k" and "k < 2 ^ 24" and "23 \<le> j"
  shows "round24 (k * 2 ^ j) = k * 2 ^ j"
proof (cases "k = 0")
  case False
  with assms(1) have "1 \<le> nat k" by simp
  from ex_power_ivl1 [OF order_refl this] obtain e where e: "2 ^ e \<le> nat k" "nat k < 2 ^ (e + 1)" by blast
  then have e': "2 ^ e \<le> k" "k < 2 ^ (e + 1)" using assms(1) by (simp_all add: le_nat_iff nat_less_iff)
  have "(2 :: int) ^ e < 2 ^ 24" using e'(1) assms(2) by linarith
  then have "e \<le> 23" using power_less_imp_less_exp [of "2 :: int" e 24] by simp
  then have "(2 :: int) ^ e dvd k * 2 ^ 23" by (intro dvd_mult le_imp_power_dvd)
  moreover have "2 ^ (23 + e) \<le> k * 2 ^ 23" "k * 2 ^ 23 < 2 ^ (24 + e)"
    using e' by (simp_all add: power_add mult.commute)
  ultimately have "round24 (k * 2 ^ 23 * 2 ^ (j - 23)) = k * 2 ^ 23 * 2 ^ (j - 23)"
    by (intro round24_nearest) simp_all
  moreover have "k * 2 ^ 23 * 2 ^ (j - 23) = k * 2 ^ j"
    using assms(3) by (simp only: mult.assoc power_add [symmetric] le_add_diff_inverse)
  ultimately show ?thesis by (simp only:)
qed (simp add: round24_def round_even_def excess.simps)

lemma f32_round_small:
  assumes "round24 (k * 2 ^ j) = c * 2 ^ j" and "0 \<le> c" and "c \<le> 2 ^ (277 - Suc j)" and "j < 277"
  shows "f32_round (k * 2 ^ j) = Finite (c * 2 ^ j)"
proof -
  have "c * 2 ^ j \<le> 2 ^ (277 - Suc j) * 2 ^ j" using assms(3) by (simp only: mult_right_mono zero_le_power zero_le_numeral)
  also have "\<dots> < 2 ^ 277" using assms(4) by (simp only: power_add [symmetric]) simp
  finally show ?thesis using assms(1,2) by (simp add: f32_round_def Let_def abs_mult)
qed

lemma round24_id: "\<bar>k\<bar> < 2 ^ 24 \<Longrightarrow> round24 k = k"
  by (simp add: round24_def round_even_def excess.simps nat_less_iff)

end
