(* ===== verification/Lte.thy ===== *)
theory Lte
  imports Ntp Http CStrings Float32
begin

text \<open>
  Bringing up LTE (\<^verbatim>\<open>src/src/main.c\<close>): the AT commands, waiting for registration, decoding the
  signal quality and address responses, the TCP test connection, the whole connection sequence
  and the console input handler.
\<close>

section \<open>AT commands\<close>

definition cind :: string where "cind = ''AT+CIND?''"
definition subscribe :: string where "subscribe = ''AT+CEREG=5''"
definition lock_bands :: string where \<open>lock_bands = ''AT%%XBANDLOCK=2,"10000001000000001100"''\<close>
definition normal :: string where "normal = ''AT+CFUN=1''"
definition flight :: string where "flight = ''AT+CFUN=4''"
definition gps_enable :: string where "gps_enable = ''AT+CFUN=31''"
definition lte_disable :: string where "lte_disable = ''AT+CFUN=20''"
definition edrx_req :: string where \<open>edrx_req = ''AT+CEDRXS=1,4,"1000"''\<close>
definition cesq :: string where "cesq = ''AT+CESQ''"
definition psm_req :: string where \<open>psm_req = ''AT+CPSMS=1,,,"00000110","00000000"''\<close>
definition edrx_disable :: string where "edrx_disable = ''AT+CEDRXS=3''"
definition magpio :: string where "magpio = ''AT%%XMAGPIO=1,0,0,1,1,1574,1577''"
definition coex0 :: string where "coex0 = ''AT%%XCOEX0=1,1,1565,1586''"
definition systm_mode :: string where "systm_mode = ''AT%%XSYSTEMMODE?''"
definition catm1_gps :: string where "catm1_gps = ''AT%%XSYSTEMMODE=1,0,1,0''"

definition lte_at :: "platform \<Rightarrow> string \<Rightarrow> history \<Rightarrow> int \<times> history" where
  "lte_at P cmd h =
     (let (err, h) = at_cmd P (At_printf cmd) h
      in (err, if err \<noteq> 0
               then printf ''Could not issue cmd %s, err %d'' [AStr cmd, AInt (at_err_type P err)] h
               else h))"

section \<open>Constants\<close>

definition AT_RESPONSE_LEN :: nat where [simp]: "AT_RESPONSE_LEN = 128"

definition TCP_HOST :: string where [simp]: "TCP_HOST = ''machdep.com''"

definition TCP_PORT :: u16 where [simp]: "TCP_PORT = 80"

section \<open>Signal quality\<close>

text \<open>
  The response is copied into a static buffer of 128 characters and split there. The result is
  what the function prints, or the way it fails: it reads past the buffer, it passes a null
  token to \<open>atoi\<close>, or an \<open>int\<close> overflows. The quality is a \<open>float\<close>: the \<open>int\<close> assigned to it is rounded
  to 24 significant bits and stays an integer.
\<close>

definition atoi_ptr :: "string option \<Rightarrow> c_error + int" where
  "atoi_ptr p = (case p of None \<Rightarrow> Inl Null_pointer | Some s \<Rightarrow> checked (atoi s))"

definition lte_signal_quality_decode :: "string \<Rightarrow> c_error + int \<times> int" where
  "lte_signal_quality_decode at_s =
     (let t = Some (strncpy at_s AT_RESPONSE_LEN)
      in bindE (strsep t) (\<lambda>(p, t).
         bindE (strsep t) (\<lambda>(p, t).
         bindE (strsep t) (\<lambda>(p, t).
         bindE (strsep t) (\<lambda>(p, t).
         bindE (strsep t) (\<lambda>(p, t).
         bindE (atoi_ptr p) (\<lambda>v.
         bindE (checked (20 - c_div v 2)) (\<lambda>v.
         let rsrq = round24 v in
         bindE (strsep t) (\<lambda>(p, t).
         bindE (atoi_ptr p) (\<lambda>v.
         bindE (checked (140 - v)) (\<lambda>v.
         bindE (checked (v + 1)) (\<lambda>rsrp. Inr (rsrq, rsrp)))))))))))))"

definition lte_signal :: "platform \<Rightarrow> history \<Rightarrow> int \<times> history" where
  "lte_signal P h =
     (let (err, h) = at_cmd P (At_cmd_async cesq) h
      in if err \<noteq> 0 then (-1, printf ''could not get signal quality err %d'' [AInt err] h)
         else (0, h))"

section \<open>The packet data address\<close>

text \<open>
  \<open>check_ipaddr\<close> on a buffer with the terminated contents \<open>buf\<close>; the returned list is what
  it prints.
\<close>

definition check_ipaddr :: "string \<Rightarrow> history \<Rightarrow> c_error + int \<times> history" where
  "check_ipaddr buf h =
     (let t = Some (buf @ [NUL]); h = printf ''%s'' [AStr buf] h
      in bindE (strsep t) (\<lambda>(p, t).
         if p \<noteq> Some ''+CGDCONT: 0'' then Inr (0, h)
         else bindE (strsep t) (\<lambda>(p, t).
         if p \<noteq> Some [CHR 0x22, CHR ''I'', CHR ''P'', CHR 0x22] then Inr (0, h)
         else bindE (strsep t) (\<lambda>(p, t).
         if p = None \<or> p = Some [CHR 0x22, CHR 0x22] then Inr (0, h)
         else let h = printf ''APN: %s'' [AStr (the p)] h
         in bindE (strsep t) (\<lambda>(p, t).
         if p = None \<or> p = Some [CHR 0x22, CHR 0x22] then Inr (0, h)
         else let h = printf ''IP: %s'' [AStr (the p)] h
         in Inr (1, h))))))"

section \<open>Registration\<close>

definition LTE_CEREG_NOT_REGISTERED :: u32 where [simp]: "LTE_CEREG_NOT_REGISTERED = 0"
definition LTE_CEREG_REGISTERED_HOME :: u32 where [simp]: "LTE_CEREG_REGISTERED_HOME = 1"
definition LTE_CEREG_SEARCHING :: u32 where [simp]: "LTE_CEREG_SEARCHING = 2"
definition LTE_CEREG_REGISTRATION_DENIED :: u32 where [simp]: "LTE_CEREG_REGISTRATION_DENIED = 3"
definition LTE_CEREG_UNKNOWN :: u32 where [simp]: "LTE_CEREG_UNKNOWN = 4"
definition LTE_CEREG_REGISTERED_ROAMING :: u32 where [simp]: "LTE_CEREG_REGISTERED_ROAMING = 5"
definition LTE_CEREG_UICC_FAIL :: u32 where [simp]: "LTE_CEREG_UICC_FAIL = 90"

text \<open>
  One pass of the loop of \<open>lte_wait\<close>: the result code, or \<open>None\<close> to go round again. The
  variables keep their values when the modem's answer does not match the scan format.
\<close>

fun cereg_result :: "u32 \<Rightarrow> int option \<times> string" where
  "cereg_result status =
     (if status = LTE_CEREG_NOT_REGISTERED then (None, ''Not registered'')
      else if status = LTE_CEREG_REGISTERED_HOME then (Some 0, ''Registered, home network.'')
      else if status = LTE_CEREG_SEARCHING then (None, ''Searching for a network...'')
      else if status = LTE_CEREG_REGISTRATION_DENIED then (Some 1, ''Registration denied'')
      else if status = LTE_CEREG_UNKNOWN then (None, ''Status is unknown'')
      else if status = LTE_CEREG_REGISTERED_ROAMING then (Some 0, ''Registered, roaming.'')
      else if status = LTE_CEREG_UICC_FAIL then (Some 1, ''SIM card failure.'')
      else (None, []))"

declare cereg_result.simps [simp del]

text \<open>
  \<open>scanned\<close> has what the modem's answer stores through the two pointers that are passed, the registration
  status and the cell identity. The parameter \<open>status\<close> is the value before, indeterminate at first.
\<close>

definition lte_wait_poll :: "platform \<Rightarrow> u32 \<Rightarrow> u32 \<Rightarrow> history \<Rightarrow> (int option \<times> u32 \<times> u32) \<times> history" where
  "lte_wait_poll P status cell_id h =
     (let (err, h) = at_cmd P (At_scanf ''AT+CEREG?'') h;
          status = (case fst (scanned P h) of None \<Rightarrow> status | Some v \<Rightarrow> v);
          cell_id = (case snd (scanned P h) of None \<Rightarrow> cell_id | Some v \<Rightarrow> v);
          h = printf ''err %d, status %d, cell_id %x'' [AInt err, AInt (sint status), AInt (uint cell_id)] h;
          (r, msg) = cereg_result status;
          h = (if msg = [] then h else printf msg [] h)
      in ((r, status, cell_id), h))"

partial_function (option) lte_wait_loop :: "platform \<Rightarrow> u32 \<Rightarrow> u32 \<Rightarrow> history \<Rightarrow> (int \<times> history) option" where
  "lte_wait_loop P status cell_id h =
     (case lte_wait_poll P status cell_id h of
        ((Some r, _, _), h) \<Rightarrow> Some (r, h)
      | ((None, status, cell_id), h) \<Rightarrow> lte_wait_loop P status cell_id (mdx_usleep 1000000 h))"

definition lte_wait :: "platform \<Rightarrow> history \<Rightarrow> (int \<times> history) option" where
  "lte_wait P h =
     (let status = uninit_status P h;
          h = printf ''Awaiting registration in the LTE-M network...'' [] h
      in lte_wait_loop P status 0 h)"

section \<open>The TCP test connection\<close>

definition str_bytes :: "string \<Rightarrow> u8 list" where
  "str_bytes s = map of_char s"

definition connect_to_server :: "platform \<Rightarrow> history \<Rightarrow> int outcome \<times> history" where
  "connect_to_server P h =
     (let pdn_id = 0;
          (fd, h) = sock P (Nrf_socket NRF_AF_INET NRF_SOCK_STREAM NRF_IPPROTO_TCP) h
      in if fd < 0 then panic ''failed to create socket'' [] h
      else let (_, h) = sock P (Nrf_setsockopt fd (NRF_SO_BINDTOPDN pdn_id)) h;
               (err, h) = sock P (Nrf_getaddrinfo TCP_HOST ''pdn0'' NRF_AI_PDNSERV) h;
               s = resolved P h
      in if err \<noteq> 0 then panic ''getaddrinfo failed with error %d'' [AInt err] h
      else let h = printf ''Server IP address: %d.%d.%d.%d'' (ip_args s) h;
               s = s\<lparr>sin_port := nrf_htons P TCP_PORT\<rparr>;
               (err, h) = sock P (Nrf_bind fd (any_local_addr P)) h
      in if err \<noteq> 0 then panic ''Bind failed: %d'' [AInt err] h
      else let h = printf ''Connecting to server...'' [] h;
               (err, h) = sock P (Nrf_connect fd s) h
      in if err \<noteq> 0 then panic ''TCP connect failed: err %d'' [AInt err] h
      else let h = printf ''Successfully connected to the server'' [] h;
               str = str_bytes (''GET / HTTP/1.0'' @ [CHR 0x0A]);
               (err, h) = sock P (Nrf_send fd str) h
      in if err \<le> 0 then
           let h = printf ''could not send data, error %d'' [AInt err] h;
               (_, h) = sock P (Nrf_close fd) h
           in (Returned err, h)
      else let h = printf ''Transmitted %d bytes'' [AInt err] h;
               (_, h) = sock P (Nrf_close fd) h
           in (Returned 0, h))"

section \<open>The connection sequence\<close>

text \<open>
  \<open>lte_ats\<close> issues commands one after the other and ignores their results, as the statements
  of \<open>lte_connect\<close> do.
\<close>

definition lte_ats :: "platform \<Rightarrow> string list \<Rightarrow> history \<Rightarrow> history" where
  "lte_ats P cmds h = fold (\<lambda>cmd h. snd (lte_at P cmd h)) cmds h"

definition setup_cmds :: "string list" where
  "setup_cmds = [flight, systm_mode, catm1_gps, magpio, coex0, psm_req, cind, edrx_req,
     ''AT%%XDATAPRFL=4'', lock_bands, subscribe, normal]"

definition lte_connect :: "platform \<Rightarrow> history \<Rightarrow> (int outcome \<times> history) option" where
  "lte_connect P h =
     (let h = lte_ats P setup_cmds h
      in case lte_wait P h of
           None \<Rightarrow> None
         | Some (r, h) \<Rightarrow> Some
             (let (c, h) =
                (if r = 0 then
                   let h = printf ''LTE connected'' [] h;
                       (_, h) = lte_signal P h;
                       (_, h) = ntp_main P h
                   in connect_to_server P h
                 else (Returned 0, printf ''Failed to connect to LTE'' [] h))
              in case c of
                   Panicked \<Rightarrow> (Panicked, h)
                 | Returned _ \<Rightarrow>
                     (case httpc_main P h of
                        (Panicked, h) \<Rightarrow> (Panicked, h)
                      | (Returned _, h) \<Rightarrow>
                          let h = mdx_usleep 500000 h;
                              (_, h) = lte_at P lte_disable h;
                              h = mdx_usleep 500000 h;
                              (_, h) = lte_at P edrx_disable h;
                              h = mdx_usleep 500000 h;
                              (_, h) = lte_at P gps_enable h;
                              h = mdx_usleep 500000 h
                          in (Returned 0, h))))"

section \<open>Console input\<close>

record console =
  buffer :: "u8 list"
  buffer_fill :: nat
  ready_to_send :: bool

definition LC_MAX_READ_LENGTH :: nat where
  "LC_MAX_READ_LENGTH = 128"

definition nrf_input :: "int \<Rightarrow> console \<Rightarrow> console" where
  "nrf_input c s =
     (if c = 13 then s\<lparr>ready_to_send := True\<rparr>
      else if buffer_fill s < LC_MAX_READ_LENGTH then
        s\<lparr>buffer := (buffer s)[buffer_fill s := word_of_int c], buffer_fill := buffer_fill s + 1\<rparr>
      else s)"

end
