(* ===== verification/Lte_Properties.thy ===== *)
theory Lte_Properties
  imports Lte
begin

text \<open>
  Parts of the connection sequence: when \<open>lte_wait\<close> returns and with what, the decoders of modem
  responses against their field-wise specification, and the bounded console buffer.
\<close>

section \<open>Waiting for registration\<close>

text \<open>
  \<open>wait_at P h n\<close>: the variables and the history when poll number \<open>n\<close> starts, as long as
  no earlier poll ended the wait.
\<close>

definition wait_next :: "platform \<Rightarrow> u32 \<times> u32 \<times> history \<Rightarrow> u32 \<times> u32 \<times> history" where
  "wait_next P = (\<lambda>(status, cell_id, h).
     (case lte_wait_poll P status cell_id h of
        ((r, status, cell_id), h) \<Rightarrow> (status, cell_id, mdx_usleep 1000000 h)))"

definition wait_poll :: "platform \<Rightarrow> u32 \<times> u32 \<times> history \<Rightarrow> (int option \<times> u32 \<times> u32) \<times> history" where
  "wait_poll P = (\<lambda>(status, cell_id, h). lte_wait_poll P status cell_id h)"

definition wait_at :: "platform \<Rightarrow> history \<Rightarrow> nat \<Rightarrow> u32 \<times> u32 \<times> history" where
  "wait_at P h n = (wait_next P ^^ n)
     (uninit_status P h, 0, printf ''Awaiting registration in the LTE-M network...'' [] h)"

definition status_at :: "platform \<Rightarrow> history \<Rightarrow> nat \<Rightarrow> u32" where
  "status_at P h n = fst (snd (fst (wait_poll P (wait_at P h n))))"

definition wait_loop :: "platform \<Rightarrow> u32 \<times> u32 \<times> history \<Rightarrow> (int \<times> history) option" where
  "wait_loop P = (\<lambda>(status, cell_id, h). lte_wait_loop P status cell_id h)"

lemma wait_loop_next:
  "wait_loop P s =
     (case fst (fst (wait_poll P s)) of
        Some r \<Rightarrow> Some (r, snd (wait_poll P s))
      | None \<Rightarrow> wait_loop P (wait_next P s))"
  by (cases s, simp only: wait_loop_def prod.case, subst lte_wait_loop.simps)
    (simp add: wait_poll_def wait_next_def split: option.splits prod.splits)

lemma wait_loop_if:
  "(\<forall>i<n. fst (fst (wait_poll P ((wait_next P ^^ i) s))) = None) \<Longrightarrow>
   fst (fst (wait_poll P ((wait_next P ^^ n) s))) = Some r \<Longrightarrow>
   wait_loop P s = Some (r, snd (wait_poll P ((wait_next P ^^ n) s)))"
proof (induction n arbitrary: s)
  case 0
  then show ?case by (simp add: wait_loop_next [of P s])
next
  case (Suc n)
  have "fst (fst (wait_poll P s)) = None" using Suc.prems(1) by (auto dest: spec [of _ 0])
  moreover have "\<forall>i<n. fst (fst (wait_poll P ((wait_next P ^^ i) (wait_next P s)))) = None"
    using Suc.prems(1) by (auto simp: funpow_swap1 dest: spec [of _ "Suc _"])
  moreover have "fst (fst (wait_poll P ((wait_next P ^^ n) (wait_next P s)))) = Some r"
    using Suc.prems(2) by (simp add: funpow_swap1)
  ultimately show ?case
    using Suc.IH [of "wait_next P s"] by (simp add: wait_loop_next [of P s] funpow_swap1)
qed

definition stops_at :: "platform \<Rightarrow> u32 \<times> u32 \<times> history \<Rightarrow> nat \<Rightarrow> bool" where
  "stops_at P s n \<longleftrightarrow> fst (fst (wait_poll P ((wait_next P ^^ n) s))) \<noteq> None"

lemma stops_at_simps:
  "stops_at P s 0 \<longleftrightarrow> fst (fst (wait_poll P s)) \<noteq> None"
  "stops_at P s (Suc n) \<longleftrightarrow> stops_at P (wait_next P s) n"
  by (simp_all add: stops_at_def funpow_swap1)

lemma lte_wait_loop_stops:
  assumes "lte_wait_loop P status cell_id h = Some y"
  shows "\<exists>n. stops_at P (status, cell_id, h) n"
proof -
  let ?stops = "\<lambda>(((P, status), cell_id), h) (y :: int \<times> history). \<exists>n. stops_at P (status, cell_id, h) n"
  have "?stops (((P, status), cell_id), h) y"
  proof (rule lte_wait_loop.raw_induct [where Pa = ?stops, OF _ assms])
    fix loop P status cell_id h and y :: "int \<times> history"
    assume IH: "\<And>P status cell_id h y. loop P status cell_id h = Some y \<Longrightarrow>
        ?stops (((P, status), cell_id), h) y"
      and body: "(case lte_wait_poll P status cell_id h of
          ((None, status, cell_id), h) \<Rightarrow> loop P status cell_id (mdx_usleep 1000000 h)
        | ((Some r, _, _), h) \<Rightarrow> Some (r, h)) = Some y"
    show "?stops (((P, status), cell_id), h) y"
    proof (cases "stops_at P (status, cell_id, h) 0")
      case False
      with body obtain s' c' h' where "wait_next P (status, cell_id, h) = (s', c', h')"
        and "loop P s' c' h' = Some y"
        by (auto simp: stops_at_simps wait_poll_def wait_next_def split: option.splits prod.splits)
      with IH [of P s' c' h' y] obtain n where "stops_at P (status, cell_id, h) (Suc n)"
        by (auto simp: stops_at_simps)
      then show ?thesis by auto
    qed auto
  qed
  then show ?thesis by simp
qed

lemma wait_loop_iff:
  "wait_loop P s = Some y \<longleftrightarrow>
     (\<exists>n r. (\<forall>i<n. fst (fst (wait_poll P ((wait_next P ^^ i) s))) = None) \<and>
        fst (fst (wait_poll P ((wait_next P ^^ n) s))) = Some r \<and>
        y = (r, snd (wait_poll P ((wait_next P ^^ n) s))))"
  (is "_ \<longleftrightarrow> (\<exists>n r. ?stops n r)")
proof
  assume y: "wait_loop P s = Some y"
  obtain status cell_id h where "s = (status, cell_id, h)" by (cases s)
  with y have "\<exists>n. stops_at P s n" by (simp add: wait_loop_def lte_wait_loop_stops)
  then obtain n where n: "stops_at P s n" "\<forall>i<n. \<not> stops_at P s i"
    using exists_least_iff [of "stops_at P s"] by blast
  then obtain r where "fst (fst (wait_poll P ((wait_next P ^^ n) s))) = Some r"
    by (auto simp: stops_at_def)
  moreover from n have "\<forall>i<n. fst (fst (wait_poll P ((wait_next P ^^ i) s))) = None"
    by (simp add: stops_at_def)
  ultimately have "?stops n r" using y wait_loop_if [of n P s r] by simp
  then show "\<exists>n r. ?stops n r" by blast
next
  assume "\<exists>n r. ?stops n r"
  then show "wait_loop P s = Some y" by (auto intro: wait_loop_if)
qed

text \<open>The result of a poll depends on the status only.\<close>

definition final_status :: "u32 \<Rightarrow> bool" where
  "final_status s \<longleftrightarrow> s = 1 \<or> s = 5 \<or> s = 3 \<or> s = 90"

lemma poll_result:
  "fst (fst (wait_poll P (wait_at P h n))) = fst (cereg_result (status_at P h n))"
  by (cases "wait_at P h n")
    (auto simp: status_at_def wait_poll_def lte_wait_poll_def at_cmd_def Let_def split: prod.splits)

lemma cereg_result_final:
  "fst (cereg_result s) = (if final_status s then Some (if s = 1 \<or> s = 5 then 0 else 1) else None)"
  by (auto simp: cereg_result.simps final_status_def)

lemma lte_wait_eq:
  "lte_wait P h = wait_loop P (uninit_status P h, 0,
     printf ''Awaiting registration in the LTE-M network...'' [] h)"
  by (simp add: lte_wait_def wait_loop_def)

lemma lte_wait_iff:
  "lte_wait P h = Some (r, h') \<longleftrightarrow>
     (\<exists>n. final_status (status_at P h n) \<and> (\<forall>i<n. \<not> final_status (status_at P h i)) \<and>
        r = (if status_at P h n = 1 \<or> status_at P h n = 5 then 0 else 1) \<and>
        h' = snd (wait_poll P (wait_at P h n)))"
  unfolding lte_wait_eq wait_loop_iff
  by (simp add: poll_result cereg_result_final flip: wait_at_def) (auto split: if_splits)

text \<open>
  What the modem reports at poll \<open>n\<close>: the registration status in its answer to the query, if the answer
  has one. What the code goes by at that poll: the report, or, as long as there is none at the first poll, the
  indeterminate value that the variable starts with.
\<close>

definition reported :: "platform \<Rightarrow> history \<Rightarrow> nat \<Rightarrow> u32 option" where
  "reported P h n = fst (scanned P (snd (at_cmd P (At_scanf ''AT+CEREG?'') (snd (snd (wait_at P h n))))))"

definition seen :: "platform \<Rightarrow> history \<Rightarrow> nat \<Rightarrow> u32 option" where
  "seen P h n =
     (case reported P h n of Some s \<Rightarrow> Some s | None \<Rightarrow> if n = 0 then Some (uninit_status P h) else None)"

lemma status_seen:
  "status_at P h n = (case seen P h n of Some s \<Rightarrow> s | None \<Rightarrow> status_at P h (n - 1))"
proof -
  have poll: "status_at P h n = (case reported P h n of Some s \<Rightarrow> s | None \<Rightarrow> fst (wait_at P h n))"
    by (cases "wait_at P h n")
      (auto simp: status_at_def reported_def wait_poll_def lte_wait_poll_def Let_def split: prod.splits option.splits)
  have later: "fst (wait_at P h (Suc m)) = status_at P h m" for m
    by (auto simp: wait_at_def wait_next_def status_at_def wait_poll_def split: prod.splits)
  have first: "fst (wait_at P h 0) = uninit_status P h" by (simp add: wait_at_def)
  show ?thesis
  proof (cases n)
    case 0
    then show ?thesis using poll first by (auto simp: seen_def split: option.splits)
  next
    case (Suc m)
    then show ?thesis using poll later [of m] by (auto simp: seen_def split: option.splits)
  qed
qed

lemma seen_start: "seen P h 0 \<noteq> None"
  by (simp add: seen_def split: option.splits)

lemma unseen_final:
  "(\<forall>i<n. \<not> final_status (status_at P h i)) \<longleftrightarrow> (\<forall>i<n. \<forall>s. seen P h i = Some s \<longrightarrow> \<not> final_status s)"
proof (induction n)
  case (Suc n)
  have "seen P h n = None \<Longrightarrow> 0 < n" using seen_start [of P h] by (cases n) simp_all
  with Suc show ?case
    unfolding less_Suc_eq by (cases "seen P h n") (auto simp: status_seen [of P h n])
qed simp

text \<open>
  C7: when \<open>lte_wait\<close> returns and with what, by the statuses that the modem reports. It returns at the first
  poll whose answer reports registration (home or roaming), denial or a SIM failure, with 0 for registration and 1
  otherwise; answers that report another status or none at all keep it polling, and it polls for ever
  if that goes on. The only thing besides the reports that can end it is the first poll: if its answer
  reports no status, the indeterminate initial value of the variable is taken for one.
\<close>

theorem lte_wait_spec:
  "lte_wait P h = Some (r, h') \<longleftrightarrow>
     (\<exists>n s. seen P h n = Some s \<and> final_status s \<and>
        (\<forall>i<n. \<forall>s'. seen P h i = Some s' \<longrightarrow> \<not> final_status s') \<and>
        r = (if s = 1 \<or> s = 5 then 0 else 1) \<and> h' = snd (wait_poll P (wait_at P h n)))"
  (is "_ \<longleftrightarrow> (\<exists>n s. ?ends n s)")
proof
  assume "lte_wait P h = Some (r, h')"
  then obtain n where n: "final_status (status_at P h n)" "\<forall>i<n. \<not> final_status (status_at P h i)"
    "r = (if status_at P h n = 1 \<or> status_at P h n = 5 then 0 else 1)" "h' = snd (wait_poll P (wait_at P h n))"
    by (auto simp: lte_wait_iff)
  have "seen P h n \<noteq> None"
  proof
    assume none: "seen P h n = None"
    then obtain m where "n = Suc m" using seen_start [of P h] by (cases n) simp_all
    with none n(1,2) status_seen [of P h n] show False by simp
  qed
  with status_seen [of P h n] have "seen P h n = Some (status_at P h n)" by auto
  with n have "?ends n (status_at P h n)" unfolding unseen_final by blast
  then show "\<exists>n s. ?ends n s" by blast
next
  assume "\<exists>n s. ?ends n s"
  then obtain n s where "?ends n s" by blast
  moreover from this have "status_at P h n = s" by (simp add: status_seen [of P h n])
  ultimately show "lte_wait P h = Some (r, h')" unfolding lte_wait_iff unseen_final by blast
qed

text \<open>A modem that reports searching once and then roaming: the wait succeeds at the second poll.\<close>

definition roaming_later :: platform where
  "roaming_later = all_ok\<lparr>scanned := (\<lambda>h. if length h < 4 then (Some 2, None) else (Some 5, Some 7))\<rparr>"

lemma roaming_later_seen: "seen roaming_later [] 0 = Some 2" "seen roaming_later [] 1 = Some 5"
  by (simp_all add: seen_def reported_def wait_at_def wait_next_def lte_wait_poll_def at_cmd_def
      Let_def cereg_result.simps run_simps roaming_later_def all_ok_def)

theorem lte_wait_spec_witness:
  "lte_wait roaming_later [] = Some (0, snd (wait_poll roaming_later (wait_at roaming_later [] 1)))"
  unfolding lte_wait_spec using roaming_later_seen
  by (intro exI [of _ 1] exI [of _ 5]) (simp add: final_status_def)

text \<open>
  \<open>status\<close> is read before anything is stored in it when the modem's first answer does not
  match the scan format: if that storage happens to hold 1, the wait reports home registration
  at once, although the modem reported none.
\<close>

lemma lte_wait_uninitialised:
  assumes "uninit_status P h = 1" and "\<forall>h. scanned P h = (None, None)"
  shows "\<exists>h'. lte_wait P h = Some (0, h')"
proof -
  have "status_at P h 0 = 1"
    using assms by (simp add: status_at_def wait_at_def wait_poll_def lte_wait_poll_def at_cmd_def
        Let_def split: prod.splits)
  then have "lte_wait P h = Some (0, snd (wait_poll P (wait_at P h 0)))"
    unfolding lte_wait_iff by (intro exI [of _ 0]) (simp add: final_status_def)
  then show ?thesis by blast
qed

section \<open>Decoding responses\<close>

lemma in_int_half: "in_int v \<Longrightarrow> in_int (20 - c_div v 2)"
  by (cases "0 \<le> v") (auto simp: in_int_def c_div_def sgn_if abs_if)

lemma decode_by_fields:
  assumes "length s < 128" and "NUL \<notin> set s"
  shows "lte_signal_quality_decode s =
    (let rsrq = atoi (csv_fields s ! 4); rsrp = atoi (csv_fields s ! 5)
     in if length (csv_fields s) < 5 then Inl Null_pointer
        else if \<not> in_int rsrq then Inl Int_overflow
        else if length (csv_fields s) < 6 then Inl Null_pointer
        else if \<not> in_int rsrp \<or> rsrp < - 2147483506 then Inl Int_overflow
        else Inr (round24 (20 - c_div rsrq 2), 141 - rsrp))"
proof -
  obtain pad where "strncpy s 128 = s @ NUL # pad" using strncpy_short [OF assms(1)] by blast
  with cursor_start [OF assms(2)] have "cursor pad (drop 0 (csv_fields s)) (Some (strncpy s 128))" by simp
  from strsep_field [OF this] obtain t1 where
    s1: "strsep (Some (strncpy s 128)) = Inr (field 0 (csv_fields s), t1)" and "cursor pad (drop (Suc 0) (csv_fields s)) t1" by blast
  from strsep_field [OF this(2)] obtain t2 where
    s2: "strsep t1 = Inr (field (Suc 0) (csv_fields s), t2)" and "cursor pad (drop (Suc (Suc 0)) (csv_fields s)) t2" by blast
  from strsep_field [OF this(2)] obtain t3 where
    s3: "strsep t2 = Inr (field 2 (csv_fields s), t3)" and "cursor pad (drop 3 (csv_fields s)) t3"
    by (auto simp: numeral_eq_Suc)
  from strsep_field [OF this(2)] obtain t4 where
    s4: "strsep t3 = Inr (field 3 (csv_fields s), t4)" and "cursor pad (drop 4 (csv_fields s)) t4"
    by (auto simp: numeral_eq_Suc)
  from strsep_field [OF this(2)] obtain t5 where
    s5: "strsep t4 = Inr (field 4 (csv_fields s), t5)" and "cursor pad (drop 5 (csv_fields s)) t5"
    by (auto simp: numeral_eq_Suc)
  from strsep_field [OF this(2)] obtain t6 where
    s6: "strsep t5 = Inr (field 5 (csv_fields s), t6)" by blast
  note strseps = s1 s2 s3 s4 s5 s6
  have rsrq: "in_int v \<Longrightarrow> checked (20 - c_div v 2) = Inr (20 - c_div v 2)" for v
    by (simp add: checked_def in_int_half)
  have rsrp: "in_int v \<Longrightarrow> bindE (checked (140 - v)) (\<lambda>v. bindE (checked (v + 1)) f) =
      (if v < - 2147483506 then Inl Int_overflow else f (141 - v))" for v and f :: "int \<Rightarrow> c_error + int \<times> int"
    by (simp add: checked_def in_int_def algebra_simps)
  show ?thesis
    by (simp del: strsep.simps add: lte_signal_quality_decode_def strseps field_def atoi_ptr_def checked_def [of "atoi _"] rsrq rsrp Let_def)
qed

text \<open>
  C25: a signal quality response shorter than the buffer is decoded by its comma-separated fields, counted
  from zero: field four gives the reference signal quality, rounded to a \<open>float\<close>, and field five the
  received power. With fewer than six fields the function passes a null token to \<open>atoi\<close>, and a number that
  does not fit an \<open>int\<close>, or whose power does not, is an overflow; the quality is converted before
  field five is looked at.
\<close>

theorem lte_signal_quality_decode_fields:
  assumes "length s < 128" and "NUL \<notin> set s"
  shows "lte_signal_quality_decode s =
    (let rsrq = atoi (csv_fields s ! 4); rsrp = atoi (csv_fields s ! 5)
     in if length (csv_fields s) < 5 then Inl Null_pointer
        else if \<not> in_int rsrq then Inl Int_overflow
        else if length (csv_fields s) < 6 then Inl Null_pointer
        else if \<not> in_int rsrp \<or> rsrp < - 2147483506 then Inl Int_overflow
        else Inr (round24 (20 - c_div rsrq 2), 141 - rsrp))"
  using assms by (rule decode_by_fields)

theorem lte_signal_quality_decode_fields_witness:
  "lte_signal_quality_decode ''+CESQ: 99,99,255,255,20,65'' = Inr (10, 76)"
  by (subst lte_signal_quality_decode_fields)
    (simp_all add: atoi_def isspace_def isdigit_def c_div_def in_int_def round24_id)

text \<open>A signal quality response as the modem prints it.\<close>

definition cesq_response :: "nat \<Rightarrow> nat \<Rightarrow> nat \<Rightarrow> nat \<Rightarrow> nat \<Rightarrow> nat \<Rightarrow> string" where
  "cesq_response rxlev ber rscp ecno rsrq rsrp =
     ''+CESQ: '' @ dec rxlev @ CHR '','' # dec ber @ CHR '','' # dec rscp @ CHR '','' # dec ecno @
     CHR '','' # dec rsrq @ CHR '','' # dec rsrp @ [CHR 0x0D, CHR 0x0A]"

lemma comma_dec: "CHR '','' \<notin> set (dec n)" "NUL \<notin> set (dec n)"
  using dec_chars [of "CHR '',''" n] dec_chars [of NUL n] by auto

lemma length_dec: "n < 1000 \<Longrightarrow> length (dec n) \<le> 3"
  by (simp add: dec.simps [of n] dec.simps [of "n div 10"] dec.simps [of "n div 100"] div_mult2_eq [symmetric])

lemma fields_cesq_response:
  "csv_fields (cesq_response rxlev ber rscp ecno rsrq rsrp) =
     [''+CESQ: '' @ dec rxlev, dec ber, dec rscp, dec ecno, dec rsrq, dec rsrp @ [CHR 0x0D, CHR 0x0A]]"
proof -
  have last_field: "CHR '','' \<notin> set (dec rsrp @ [CHR 0x0D, CHR 0x0A])" by (simp add: comma_dec)
  have first: "CHR '','' \<notin> set (''+CESQ: '' @ dec rxlev)" by (simp add: comma_dec)
  show ?thesis
    unfolding cesq_response_def append_assoc [symmetric, of "''+CESQ: ''"]
    by (simp only: fields_field(2) [OF first] fields_field(2) [OF comma_dec(1)]
        fields_field(1) [OF last_field])
qed

text \<open>
  C24: round trip: every response with six numbers below 1000, as the modem prints it, decodes to
  the signal quality and power of its last two numbers.
\<close>

theorem cesq_roundtrip:
  assumes "rxlev < 1000" "ber < 1000" "rscp < 1000" "ecno < 1000" "rsrq < 1000" "rsrp < 1000"
  shows "lte_signal_quality_decode (cesq_response rxlev ber rscp ecno rsrq rsrp) =
    Inr (20 - int (rsrq div 2), 141 - int rsrp)"
proof -
  have "length (cesq_response rxlev ber rscp ecno rsrq rsrp) < 128"
    using assms [THEN length_dec] by (simp add: cesq_response_def)
  moreover have "NUL \<notin> set (cesq_response rxlev ber rscp ecno rsrq rsrp)"
    by (simp add: cesq_response_def comma_dec)
  moreover have "atoi (dec rsrq) = int rsrq" "atoi (dec rsrp @ [CHR 0x0D, CHR 0x0A]) = int rsrp"
    using atoi_dec [of "[]" rsrq] atoi_dec [of "[CHR 0x0D, CHR 0x0A]" rsrp]
    by (simp_all add: isdigit_def)
  moreover have "round24 (20 - int (rsrq div 2)) = 20 - int (rsrq div 2)" by (rule round24_id) (use assms(5) in simp)
  ultimately show ?thesis
    using assms(5,6) by (simp add: decode_by_fields fields_cesq_response c_div_nonneg zdiv_int in_int_def)
qed

theorem cesq_roundtrip_witness:
  "lte_signal_quality_decode (cesq_response 99 99 255 255 31 62) = Inr (5, 79)"
  using cesq_roundtrip [of 99 99 255 255 31 62] by simp

text \<open>
  C26: \<open>check_ipaddr\<close> never reads out of bounds on a terminated buffer, and it returns 1 exactly
  for a response of context 0 of type IP that has an access point name field and an address field, neither
  of which is the quoted empty string. A field with no characters at all is accepted: the response
  ending in two commas after the type has no name and no address, and gives 1.
\<close>

theorem check_ipaddr_spec:
  assumes "NUL \<notin> set buf"
  shows "\<exists>h'. check_ipaddr buf h = Inr (if field 0 (csv_fields buf) = Some ''+CGDCONT: 0'' \<and>
      field 1 (csv_fields buf) = Some [CHR 0x22, CHR ''I'', CHR ''P'', CHR 0x22] \<and>
      (\<forall>k \<in> {2, 3}. field k (csv_fields buf) \<notin> {None, Some [CHR 0x22, CHR 0x22]}) then 1 else 0, h')"
proof -
  from cursor_start [OF assms] have "cursor [] (drop 0 (csv_fields buf)) (Some (buf @ [NUL]))" by simp
  from strsep_field [OF this] obtain t1 where
    s1: "strsep (Some (buf @ [NUL])) = Inr (field 0 (csv_fields buf), t1)"
    and "cursor [] (drop 1 (csv_fields buf)) t1" by auto
  from strsep_field [OF this(2)] obtain t2 where
    s2: "strsep t1 = Inr (field 1 (csv_fields buf), t2)" and "cursor [] (drop 2 (csv_fields buf)) t2"
    by (auto simp: numeral_eq_Suc)
  from strsep_field [OF this(2)] obtain t3 where
    s3: "strsep t2 = Inr (field 2 (csv_fields buf), t3)" and "cursor [] (drop 3 (csv_fields buf)) t3"
    by (auto simp: numeral_eq_Suc)
  from strsep_field [OF this(2)] obtain t4 where
    s4: "strsep t3 = Inr (field 3 (csv_fields buf), t4)" by blast
  from s1 s2 s3 s4 show ?thesis by (simp add: check_ipaddr_def Let_def)
qed

theorem check_ipaddr_spec_witness:
  \<open>\<exists>h'. check_ipaddr ''+CGDCONT: 0,"IP","iot","10.0.0.1"'' [] = Inr (1, h')\<close>
  using check_ipaddr_spec [of \<open>''+CGDCONT: 0,"IP","iot","10.0.0.1"''\<close> "[]"] by (simp add: field_def)

section \<open>Console input\<close>

definition console_inv :: "console \<Rightarrow> bool" where
  "console_inv s \<longleftrightarrow> length (buffer s) = LC_MAX_READ_LENGTH \<and> buffer_fill s \<le> LC_MAX_READ_LENGTH"

interpretation console: invariant_machine nrf_input console_inv
  by unfold_locales (simp add: nrf_input_def console_inv_def)

definition contents :: "console \<Rightarrow> u8 list" where
  "contents s = take (buffer_fill s) (buffer s)"

lemma nrf_input_contents:
  "console_inv s \<Longrightarrow> contents (nrf_input c s) = take 128 (contents s @ (if c = 13 then [] else [word_of_int c]))"
  by (auto simp: contents_def nrf_input_def console_inv_def LC_MAX_READ_LENGTH_def take_Suc_conv_app_nth)

lemma take_take_append: "take n (take n xs @ ys) = take n (xs @ ys)"
  by (simp add: min_def)

lemma nrf_input_run_contents:
  "console_inv s \<Longrightarrow> contents (fold nrf_input cs s) =
    take 128 (contents s @ map word_of_int (filter (\<lambda>c. c \<noteq> 13) cs))"
proof (induction cs arbitrary: s)
  case Nil
  then show ?case by (simp add: contents_def console_inv_def LC_MAX_READ_LENGTH_def)
next
  case (Cons c cs)
  have "contents (fold nrf_input (c # cs) s) =
      take 128 (take 128 (contents s @ (if c = 13 then [] else [word_of_int c])) @
        map word_of_int (filter (\<lambda>c. c \<noteq> 13) cs))"
    using Cons.IH [OF console.step_inv [OF Cons.prems]] nrf_input_contents [OF Cons.prems] by simp
  then show ?case unfolding take_take_append by (cases "c = 13") (simp_all del: take_append)
qed

lemma nrf_input_run_ready:
  "ready_to_send (fold nrf_input cs s) \<longleftrightarrow> ready_to_send s \<or> 13 \<in> set cs"
  by (induction cs arbitrary: s) (auto simp: nrf_input_def)

text \<open>
  C27: the console buffer never overflows: after any sequence of characters from an empty
  buffer the fill stays within the 128 characters of the array, and the array holds, in order,
  the first 128 characters that are not carriage returns. The ready flag is set exactly when a
  carriage return has arrived.
\<close>

theorem console_contents:
  assumes "length (buffer s) = 128" and "buffer_fill s = 0" and "\<not> ready_to_send s"
  shows "let s' = fold nrf_input cs s in
    length (buffer s') = 128 \<and> buffer_fill s' \<le> 128 \<and>
    take (buffer_fill s') (buffer s') = take 128 (map word_of_int (filter (\<lambda>c. c \<noteq> 13) cs)) \<and>
    (ready_to_send s' \<longleftrightarrow> 13 \<in> set cs)"
proof -
  have inv: "console_inv s" using assms by (simp add: console_inv_def LC_MAX_READ_LENGTH_def)
  from console.run_inv [OF inv] nrf_input_run_contents [OF inv] assms show ?thesis
    by (simp add: Let_def contents_def console_inv_def LC_MAX_READ_LENGTH_def nrf_input_run_ready)
qed

theorem console_contents_witness:
  "take 2 (buffer (fold nrf_input [65, 84, 13] \<lparr>buffer = replicate 128 0, buffer_fill = 0, ready_to_send = False\<rparr>))
     = [65, 84]"
  using console_contents [of "\<lparr>buffer = replicate 128 0, buffer_fill = 0, ready_to_send = False\<rparr>" "[65, 84, 13]"]
  by (simp add: nrf_input_def LC_MAX_READ_LENGTH_def numeral_2_eq_2)

end
