(* ===== verification/Connection.thy ===== *)
theory Connection
  imports Lte_Properties
begin

text \<open>
  The connection sequence as a whole: which AT commands it issues and in which order, how the TCP test uses its socket, and how many
  sockets a run leaves open. What an operation adds to the history is proved once for every view
  of the history (the locales \<open>app_view\<close>, \<open>client_view\<close> and \<open>connection_view\<close>) and then read off
  for AT calls, socket calls and GNSS calls.
\<close>

section \<open>The order of the AT commands\<close>

fun at_events :: "history \<Rightarrow> at_call list" where
  "at_events [] = []"
| "at_events (At c r # h) = c # at_events h"
| "at_events (_ # h) = at_events h"

definition at_view :: "event \<Rightarrow> at_call list" where
  "at_view e = (case e of At c r \<Rightarrow> [c] | _ \<Rightarrow> [])"

definition sock_view :: "event \<Rightarrow> (sock_call \<times> int) list" where
  "sock_view e = (case e of Sock c r \<Rightarrow> [(c, r)] | _ \<Rightarrow> [])"

definition gnss_view :: "event \<Rightarrow> (gnss_call \<times> int) list" where
  "gnss_view e = (case e of Gnss c r \<Rightarrow> [(c, r)] | _ \<Rightarrow> [])"

lemma at_events_shown: "at_events h = shown at_view h"
  by (induction h rule: at_events.induct) (simp_all add: at_view_def)

lemma sock_events_shown: "sock_events h = shown sock_view h"
  by (induction h rule: sock_events.induct) (simp_all add: sock_view_def)

lemma concat_replicate_snoc: "concat (replicate n xs) @ xs = xs @ concat (replicate n xs)"
  by (induction n) simp_all

section \<open>What the operations show\<close>

definition to_gps :: "platform \<Rightarrow> history \<Rightarrow> history" where
  "to_gps P h = mdx_usleep 500000 (snd (lte_at P gps_enable (mdx_usleep 500000
     (snd (lte_at P edrx_disable (mdx_usleep 500000 (snd (lte_at P lte_disable (mdx_usleep 500000 h)))))))))"

definition registration_polls :: "nat \<Rightarrow> at_call list" where
  "registration_polls n = replicate (Suc n) (At_scanf ''AT+CEREG?'')"

text \<open>Views that show an AT call independently of its result.\<close>

locale app_view = event_view +
  fixes atv :: "at_call \<Rightarrow> 'a list"
  assumes at_shown [simp]: "view (At c r) = atv c"
begin

lemma lte_at_grows: "grows view h (snd (lte_at P cmd h)) (atv (At_printf cmd))"
  by (simp add: lte_at_def at_cmd_def grows_events printf_def)

lemma lte_ats_grows: "grows view h (lte_ats P cmds h) (concat (map (\<lambda>c. atv (At_printf c)) cmds))"
proof (induction cmds arbitrary: h)
  case Nil
  then show ?case by (simp add: lte_ats_def grows_refl)
next
  case (Cons cmd cmds)
  from grows_trans [OF lte_at_grows [of h P cmd] Cons] show ?case by (simp add: lte_ats_def)
qed

lemma wait_poll_grows: "grows view (snd (snd s)) (snd (wait_poll P s)) (atv (At_scanf ''AT+CEREG?''))"
  by (cases s)
    (simp add: wait_poll_def lte_wait_poll_def at_cmd_def grows_events printf_def Let_def split: prod.splits)

lemma wait_next_history: "snd (snd (wait_next P s)) = mdx_usleep 1000000 (snd (wait_poll P s))"
  by (cases s) (simp add: wait_next_def wait_poll_def split: prod.splits)

lemma wait_at_grows:
  "grows view h (snd (snd (wait_at P h n))) (concat (replicate n (atv (At_scanf ''AT+CEREG?''))))"
proof (induction n)
  case 0
  then show ?case by (simp add: wait_at_def printf_silent)
next
  case (Suc n)
  have "wait_at P h (Suc n) = wait_next P (wait_at P h n)" by (simp add: wait_at_def)
  with grows_trans [OF Suc grows_trans [OF wait_poll_grows [of "wait_at P h n" P] usleep_silent]]
  show ?case by (simp add: wait_next_history concat_replicate_snoc)
qed

lemma lte_signal_grows: "grows view h (snd (lte_signal P h)) (atv (At_cmd_async cesq))"
  by (simp add: lte_signal_def at_cmd_def grows_events printf_def)

lemma lte_wait_grows:
  assumes "lte_wait P h = Some (r, h')"
  shows "\<exists>n. grows view h h' (concat (map atv (registration_polls n)))"
proof -
  from assms obtain n where "h' = snd (wait_poll P (wait_at P h n))" by (auto simp: lte_wait_iff)
  with grows_trans [OF wait_at_grows [of h P n] wait_poll_grows [of "wait_at P h n" P]] show ?thesis
    by (auto simp: registration_polls_def concat_replicate_snoc intro!: exI [of _ n])
qed

lemma to_gps_grows:
  "grows view h (to_gps P h) (concat (map (\<lambda>c. atv (At_printf c)) [lte_disable, edrx_disable, gps_enable]))"
proof -
  have cmd: "grows view k (mdx_usleep 500000 (snd (lte_at P c k'))) (vs @ atv (At_printf c))"
    if "grows view k k' vs" for k k' vs c
    using grows_trans [OF that grows_trans [OF lte_at_grows usleep_silent]] by simp
  show ?thesis
    using cmd [OF cmd [OF cmd [OF usleep_silent]]] by (simp add: to_gps_def)
qed

end

text \<open>Views that show no socket call: the network clients are invisible in them.\<close>

locale client_view = event_view +
  assumes sock_hidden [simp]: "view (Sock c r) = []"
begin

lemma ntp_main_silent: "post (ntp_main P h) (\<lambda>(r, h'). grows view h h' [])"
proof -
  have time: "post (print_time P t k) (\<lambda>(r, h'). grows view h k [] \<longrightarrow> grows view h h' [])" for t k
    by (auto simp: post_def print_time_def Let_def printf_def grows_append split: option.splits)
  have conn: "post (ntp_connect P a k) (\<lambda>(e, fd, h'). grows view h k [] \<longrightarrow> grows view h h' [])" for a k
    unfolding ntp_connect_def Let_def printf_def
    by (intro post_intros; rule postI) (auto simp: grows_append)
  show ?thesis
    unfolding ntp_main_def Let_def printf_def
    by (intro post_intros post_call3 [OF conn] post_call2 [OF time]; (rule postI)?)
      (auto simp: grows_append grows_events)
qed

lemma connect_to_server_silent: "post (connect_to_server P h) (\<lambda>(r, h'). grows view h h' [])"
  unfolding connect_to_server_def Let_def printf_def panic_def
  by (intro post_intros; rule postI) (auto simp: grows_events)

lemma httpc_silent:
  "post (httpc_open P d p ssl h) (\<lambda>(r, h'). grows view h h' [])"
  "post (httpc_read P fd n h) (\<lambda>(r, h'). grows view h h' [])"
  "post (httpc_write P fd bs h) (\<lambda>(r, h'). grows view h h' [])"
  "post (httpc_dump_cb P ts pos h) (\<lambda>(r, h'). grows view h h' [])"
  unfolding httpc_open_def httpc_read_def httpc_write_def httpc_dump_cb_def Let_def printf_def panic_def
  by (intro post_intros; rule postI; auto simp: grows_events)+

lemma http_step_silent: "post (http_step P ts c fd h) (\<lambda>(r, h'). grows view h h' [])"
  using httpc_silent [of P] by (cases c)
    (auto simp: post_def split_beta httpc_close_def httpc_allocator_def httpc_sleep_def httpc_time_def
      httpc_logger_def printf_silent split: option.splits prod.splits outcome.splits)

lemma http_steps_silent: "grows view h (snd (http_steps P ts cs fd h)) []"
proof (induction cs arbitrary: fd h)
  case Nil
  then show ?case by (simp add: grows_refl)
next
  case (Cons c cs)
  obtain r h' where s: "http_step P ts c fd h = (r, h')" by fastforce
  with postD [OF http_step_silent s] have "grows view h h' []" by simp
  with s Cons grows_trans [of view h h' "[]" _ "[]"] show ?case by (cases r) auto
qed

lemma httpc_main_silent: "grows view h (snd (httpc_main P h)) []"
proof -
  have "grows view h (snd (http_steps P ts cs fd (h @ [Uptime t]))) []" for ts cs fd t
    by (rule grows_step [OF _ http_steps_silent, where vs = "[]"]) (simp_all add: grows_events)
  then show ?thesis
    by (auto simp: httpc_main_def mdx_uptime_def Let_def split: outcome.splits prod.splits)
      (metis snd_conv)+
qed

end

text \<open>The AT commands of a connection that polls \<open>n + 1\<close> times.\<close>

definition connect_cmds :: "nat \<Rightarrow> bool \<Rightarrow> at_call list" where
  "connect_cmds n registered = map At_printf setup_cmds @ registration_polls n @
     (if registered then [At_cmd_async cesq] else []) @ map At_printf [lte_disable, edrx_disable, gps_enable]"

text \<open>A returning run, cut at the end of each of its parts.\<close>

lemma lte_connect_cut:
  assumes "lte_connect P h = Some (Returned r, h')" and "lte_wait P (lte_ats P setup_cmds h) = Some (w, h2)"
    and "h_tcp = snd (ntp_main P (snd (lte_signal P (printf ''LTE connected'' [] h2))))"
    and "h3 = (if w = 0 then snd (connect_to_server P h_tcp) else printf ''Failed to connect to LTE'' [] h2)"
  shows "w = 0 \<longrightarrow> fst (connect_to_server P h_tcp) \<noteq> Panicked" and "fst (httpc_main P h3) \<noteq> Panicked"
    and "h' = to_gps P (snd (httpc_main P h3))"
  using assms by (auto simp: lte_connect_def to_gps_def Let_def split_beta split: outcome.splits prod.splits if_splits)

lemma lte_connect_parts:
  assumes "lte_connect P h = Some (Returned r, h')"
  obtains w h2 h3 h4 where "lte_wait P (lte_ats P setup_cmds h) = Some (w, h2)"
    "h3 = (if w = 0 then snd (connect_to_server P (snd (ntp_main P (snd (lte_signal P (printf ''LTE connected'' [] h2))))))
      else printf ''Failed to connect to LTE'' [] h2)"
    "w = 0 \<longrightarrow> fst (connect_to_server P (snd (ntp_main P (snd (lte_signal P (printf ''LTE connected'' [] h2)))))) \<noteq> Panicked"
    "h4 = snd (httpc_main P h3)" "fst (httpc_main P h3) \<noteq> Panicked" "h' = to_gps P h4"
proof -
  from assms obtain w h2 where w: "lte_wait P (lte_ats P setup_cmds h) = Some (w, h2)"
    by (auto simp: lte_connect_def Let_def split: option.splits)
  show thesis
    by (rule that [OF w refl lte_connect_cut(1) [OF assms w refl refl] refl lte_connect_cut(2,3) [OF assms w refl refl]])
qed

text \<open>Views that show AT calls only.\<close>

locale connection_view = app_view + client_view
begin

lemma online_grows:
  "grows view h (snd (connect_to_server P (snd (ntp_main P (snd (lte_signal P (printf msg [] h)))))))
     (atv (At_cmd_async cesq))"
proof -
  have "grows view h (snd (lte_signal P (printf msg [] h))) (atv (At_cmd_async cesq))"
    by (rule grows_step [OF printf_silent lte_signal_grows]) simp
  then have "grows view h (snd (ntp_main P (snd (lte_signal P (printf msg [] h))))) (atv (At_cmd_async cesq))"
    by (rule grows_step) (use ntp_main_silent in \<open>auto simp: post_def split_beta\<close>)
  then show ?thesis
    by (rule grows_step) (use connect_to_server_silent in \<open>auto simp: post_def split_beta\<close>)
qed

lemma lte_connect_grows:
  assumes "lte_connect P h = Some (Returned r, h')"
  shows "\<exists>n registered. grows view h h' (concat (map atv (connect_cmds n registered))) \<and>
    (registered \<longleftrightarrow> fst (the (lte_wait P (lte_ats P setup_cmds h))) = 0)"
proof -
  from assms obtain w h2 h3 h4 where w: "lte_wait P (lte_ats P setup_cmds h) = Some (w, h2)"
    and h3: "h3 = (if w = 0 then snd (connect_to_server P (snd (ntp_main P (snd (lte_signal P (printf ''LTE connected'' [] h2))))))
      else printf ''Failed to connect to LTE'' [] h2)"
    and h4: "h4 = snd (httpc_main P h3)" and h': "h' = to_gps P h4"
    by (rule lte_connect_parts)
  obtain n where n: "grows view (lte_ats P setup_cmds h) h2 (concat (map atv (registration_polls n)))"
    using lte_wait_grows [OF w] by blast
  have "grows view h2 h3 (if w = 0 then atv (At_cmd_async cesq) else [])"
    using online_grows printf_silent by (simp add: h3)
  from grows_trans [OF lte_ats_grows grows_trans [OF n grows_trans [OF this
      grows_trans [OF httpc_main_silent [of h3 P, folded h4] to_gps_grows [of h4 P, folded h']]]]]
  show ?thesis using w
    by (intro exI [of _ n] exI [of _ "w = 0"]) (auto simp: connect_cmds_def comp_def)
qed

end

interpretation at_trace: connection_view at_view "\<lambda>c. [c]"
  by unfold_locales (simp_all add: at_view_def)

interpretation gnss_trace: connection_view gnss_view "\<lambda>c. []"
  by unfold_locales (simp_all add: gnss_view_def)

interpretation sock_trace: app_view sock_view "\<lambda>c. []"
  by unfold_locales (simp_all add: sock_view_def)

lemma lte_connect_at:
  assumes "lte_connect P h = Some (Returned r, h')"
  shows "\<exists>n registered. grows at_view h h' (connect_cmds n registered) \<and>
    (registered \<longleftrightarrow> fst (the (lte_wait P (lte_ats P setup_cmds h))) = 0)"
  using at_trace.lte_connect_grows [OF assms] by simp

lemma lte_connect_no_gnss:
  assumes "lte_connect P h = Some (Returned r, h')"
  shows "grows gnss_view h h' []"
  using gnss_trace.lte_connect_grows [OF assms] by simp

section \<open>A cooperative modem\<close>

text \<open>With a cooperative modem the sequence returns and registers at the first poll.\<close>

lemma all_ok_wait: "\<exists>h'. lte_wait (all_ok\<lparr>random_u64 := rnd\<rparr>) h = Some (0, h')"
proof -
  have "status_at (all_ok\<lparr>random_u64 := rnd\<rparr>) h 0 = 1"
    by (simp add: status_at_def wait_at_def wait_poll_def lte_wait_poll_def at_cmd_def
        Let_def all_ok_def split: prod.splits)
  then show ?thesis by (auto simp: lte_wait_iff final_status_def intro!: exI [of _ 0])
qed

lemma all_ok_returns: "\<exists>h'. lte_connect (all_ok\<lparr>random_u64 := rnd\<rparr>) h = Some (Returned 0, h')"
proof -
  let ?P = "all_ok\<lparr>random_u64 := rnd\<rparr>"
  obtain h1 where "lte_wait ?P (lte_ats ?P setup_cmds h) = Some (0, h1)"
    using all_ok_wait by blast
  moreover have "fst (connect_to_server ?P k) = Returned 0" for k
    by (simp add: connect_to_server_def run_simps Let_def all_ok_def str_bytes_def)
  moreover have "fst (httpc_main ?P k) = Returned 0" for k
    by (simp add: httpc_main_def httpc_open_def httpc_write_def httpc_read_def httpc_close_def
        run_simps Let_def all_ok_def)
  ultimately show ?thesis
    by (auto simp: lte_connect_def Let_def split_beta split: outcome.splits prod.splits)
qed

section \<open>What the modem receives\<close>

text \<open>
  The commands of \<open>nrf_modem_at_printf\<close> and \<open>nrf_modem_at_cmd_async\<close> are formats of the \<open>printf\<close> kind:
  two percent signs stand for one, and a conversion would read an argument that the code does not
  pass (\<open>None\<close>). The command of \<open>nrf_modem_at_scanf\<close> is sent as it is.
\<close>

fun at_expand :: "string \<Rightarrow> string option" where
  "at_expand [] = Some []"
| "at_expand (c # cs) =
     (if c = CHR ''%'' then
        (case cs of [] \<Rightarrow> None
         | d # ds \<Rightarrow> if d = CHR ''%'' then map_option (Cons c) (at_expand ds) else None)
      else map_option (Cons c) (at_expand cs))"

fun at_text :: "at_call \<Rightarrow> string option" where
  "at_text (At_printf fmt) = at_expand fmt"
| "at_text (At_cmd_async fmt) = at_expand fmt"
| "at_text (At_scanf cmd) = Some cmd"

text \<open>The bands a band mask names: its last digit is band 1.\<close>

definition bands :: "string \<Rightarrow> nat list" where
  "bands digits = filter (\<lambda>b. rev digits ! (b - 1) = CHR ''1'') [1..<Suc (length digits)]"

definition setup_texts :: "string list" where
  \<open>setup_texts = [''AT+CFUN=4'', ''AT%XSYSTEMMODE?'', ''AT%XSYSTEMMODE=1,0,1,0'', ''AT%XMAGPIO=1,0,0,1,1,1574,1577'',
     ''AT%XCOEX0=1,1,1565,1586'', ''AT+CPSMS=1,,,"00000110","00000000"'', ''AT+CIND?'', ''AT+CEDRXS=1,4,"1000"'',
     ''AT%XDATAPRFL=4'', ''AT%XBANDLOCK=2,"10000001000000001100"'', ''AT+CEREG=5'', ''AT+CFUN=1'']\<close>

lemmas command_defs = flight_def systm_mode_def catm1_gps_def magpio_def coex0_def psm_req_def cind_def edrx_req_def
  lock_bands_def subscribe_def normal_def lte_disable_def edrx_disable_def gps_enable_def cesq_def

lemma setup_expands: "map (at_text \<circ> At_printf) setup_cmds = map Some setup_texts"
  by (simp add: setup_cmds_def setup_texts_def command_defs)

lemma registration_polls_text: "map at_text (registration_polls n) = replicate (Suc n) (Some ''AT+CEREG?'')"
  by (simp add: registration_polls_def)

text \<open>
  C28: the text the modem receives. No command has a conversion in it, so every one is defined: when the
  sequence returns, the modem has received these lines in this order. The band mask among them
  names the bands 3, 4, 13 and 20, as the comment in the source says.
\<close>

theorem lte_connect_at_texts:
  assumes "lte_connect P h = Some (Returned r, h')"
  shows "\<exists>n registered. map at_text (at_events (new_events h h')) = map Some (setup_texts @
      replicate (Suc n) ''AT+CEREG?'' @ (if registered then [''AT+CESQ''] else []) @
      [''AT+CFUN=20'', ''AT+CEDRXS=3'', ''AT+CFUN=31'']) \<and>
    (registered \<longleftrightarrow> fst (the (lte_wait P (lte_ats P setup_cmds h))) = 0) \<and>
    (\<exists>digits. ''AT%XBANDLOCK=2,'' @ [CHR 0x22] @ digits @ [CHR 0x22] \<in> set setup_texts \<and> bands digits = [3, 4, 13, 20])"
proof -
  obtain n registered where c: "grows at_view h h' (connect_cmds n registered)"
    "registered \<longleftrightarrow> fst (the (lte_wait P (lte_ats P setup_cmds h))) = 0"
    using lte_connect_at [OF assms] by blast
  then have "map at_text (at_events (new_events h h')) = map Some (setup_texts @
      replicate (Suc n) ''AT+CEREG?'' @ (if registered then [''AT+CESQ''] else []) @
      [''AT+CFUN=20'', ''AT+CEDRXS=3'', ''AT+CFUN=31''])"
    using setup_expands registration_polls_text [of n]
    by (simp add: at_events_shown grows_new_events connect_cmds_def command_defs)
  moreover have "bands ''10000001000000001100'' = [3, 4, 13, 20]"
    by (simp add: bands_def upt_rec)
  moreover have "''AT%XBANDLOCK=2,'' @ [CHR 0x22] @ ''10000001000000001100'' @ [CHR 0x22] \<in> set setup_texts"
    by (simp add: setup_texts_def)
  ultimately show ?thesis using c(2) by blast
qed

theorem lte_connect_at_texts_witness:
  "\<exists>h' n. lte_connect (all_ok\<lparr>random_u64 := (\<lambda>h. 7)\<rparr>) [] = Some (Returned 0, h') \<and>
     map at_text (at_events (new_events [] h')) = map Some (setup_texts @ replicate (Suc n) ''AT+CEREG?'' @
       [''AT+CESQ'', ''AT+CFUN=20'', ''AT+CEDRXS=3'', ''AT+CFUN=31''])"
proof -
  let ?P = "all_ok\<lparr>random_u64 := (\<lambda>h. 7)\<rparr>"
  obtain h' where h': "lte_connect ?P [] = Some (Returned 0, h')" using all_ok_returns by blast
  obtain h1 where "lte_wait ?P (lte_ats ?P setup_cmds []) = Some (0, h1)"
    using all_ok_wait by blast
  with lte_connect_at_texts [OF h'] h' show ?thesis by auto
qed

section \<open>Termination\<close>

text \<open>
  Of the steps of the sequence, the wait for registration is the one whose end is not taken for
  granted: the sequence has a result exactly when the status variable is final after some poll.
\<close>

lemma lte_connect_terminates:
  "(\<exists>r. lte_connect P h = Some r) \<longleftrightarrow> (\<exists>n. final_status (status_at P (lte_ats P setup_cmds h) n))"
proof -
  have "(\<exists>r. lte_connect P h = Some r) \<longleftrightarrow> (\<exists>r h'. lte_wait P (lte_ats P setup_cmds h) = Some (r, h'))"
    by (auto simp: lte_connect_def Let_def split: option.splits)
  also have "\<dots> \<longleftrightarrow> (\<exists>n. final_status (status_at P (lte_ats P setup_cmds h) n))"
    unfolding lte_wait_iff
    using exists_least_iff [of "\<lambda>n. final_status (status_at P (lte_ats P setup_cmds h) n)"] by auto
  finally show ?thesis .
qed

section \<open>The TCP test connection\<close>

lemma connect_to_server_runs:
  "post (connect_to_server P h) (\<lambda>(r, h').
     (\<exists>st. runs h st h') \<and> (r \<noteq> Panicked \<longrightarrow> (\<exists>fd. runs h (Closed fd) h')))"
  unfolding connect_to_server_def Let_def printf_def panic_def
  by (intro post_intros; rule postI) (auto simp: runs_append [OF runs_refl])

interpretation tcp_client: socket_client "\<lambda>P h. snd (connect_to_server P h)"
proof unfold_locales
  fix P h
  show "\<exists>st. sock_run Unopened (sock_events (new_events h (snd (connect_to_server P h)))) = Some st"
    using postD [OF connect_to_server_runs surjective_pairing] runs_new_events by fastforce
qed

text \<open>
  The TCP test follows the socket life cycle whatever the modem answers, and when it returns,
  successfully or with the error of the send, it has closed the socket it opened.
\<close>

lemma connect_to_server_socket_use:
  "\<exists>st. sock_run Unopened (sock_events (new_events h (snd (connect_to_server P h)))) = Some st \<and>
     (fst (connect_to_server P h) \<noteq> Panicked \<longrightarrow> (\<exists>fd. st = Closed fd \<and> 0 \<le> fd))"
proof -
  obtain st where st: "sock_run Unopened (sock_events (new_events h (snd (connect_to_server P h)))) = Some st"
    using tcp_client.walks by blast
  moreover have "\<exists>fd. st = Closed fd" if "fst (connect_to_server P h) \<noteq> Panicked"
    using postD [OF connect_to_server_runs surjective_pairing] that st runs_new_events by fastforce
  ultimately show ?thesis using sock_run_inv [OF st] by auto
qed

section \<open>Sockets left open\<close>

text \<open>\<open>leaves h h' n\<close>: from \<open>h\<close> to \<open>h'\<close>, \<open>n\<close> more sockets were opened than closed.\<close>

definition leaves :: "history \<Rightarrow> history \<Rightarrow> int \<Rightarrow> bool" where
  "leaves h h' n \<longleftrightarrow> (\<exists>es. grows sock_view h h' es \<and> balance es = n)"

lemma leaves_trans: "leaves h h' m \<Longrightarrow> leaves h' h'' n \<Longrightarrow> leaves h h'' (m + n)"
  by (fastforce simp: leaves_def dest: grows_trans)

lemma leaves_events: "leaves h (h @ evs) n \<longleftrightarrow> balance (sock_events evs) = n"
  by (auto simp: leaves_def grows_events sock_events_shown)

lemma leaves_silent: "grows sock_view h h' [] \<Longrightarrow> leaves h h' 0"
  by (auto simp: leaves_def)

lemma runs_leaves: "runs h st h' \<Longrightarrow> leaves h h' (holds_open st)"
  by (auto simp: leaves_events dest!: runs_balance)

lemma ntp_main_leaves:
  "leaves h (snd (ntp_main P h))
     (if fst (ntp_main P h) \<noteq> 0 \<and> created (sock_events (new_events h (snd (ntp_main P h)))) then 1 else 0)"
proof -
  obtain r h' where m: "ntp_main P h = (r, h')" by fastforce
  obtain st where st: "runs h st h'" "st = Unopened \<or> (\<exists>fd. st = Closed fd) \<and> r = 0 \<or> (\<exists>fd. st = Opened fd \<or> st = Bound fd) \<and> r \<noteq> 0"
    using postD [OF ntp_main_runs m] by auto
  have "created (sock_events (new_events h h')) \<longleftrightarrow> st \<noteq> Unopened"
    using sock_run_created [OF runs_new_events [OF st(1)]] by simp
  with st(2) runs_leaves [OF st(1)] show ?thesis by (auto simp: m)
qed

lemma connect_to_server_leaves:
  "fst (connect_to_server P h) \<noteq> Panicked \<Longrightarrow> leaves h (snd (connect_to_server P h)) 0"
  using connect_to_server_runs [of P h] by (auto simp: post_def split_beta dest!: runs_leaves)

lemma http_step_leaves:
  "post (http_step P ts c fd h) (\<lambda>(r, h'). r \<noteq> Panicked \<longrightarrow> leaves h h' (if is_open c then 1 else 0))"
proof -
  have rd: "post (httpc_read P fd n h) (\<lambda>(r, h'). leaves h h' 0)" for n
    unfolding httpc_read_def Let_def printf_def
    by (intro post_intros; rule postI) (auto simp: leaves_events)
  have wr: "post (httpc_write P fd bs h) (\<lambda>(r, h'). leaves h h' 0)" for bs
    unfolding httpc_write_def Let_def printf_def
    by (intro post_intros; rule postI) (auto simp: leaves_events)
  have du: "post (httpc_dump_cb P ts pos h) (\<lambda>(r, h'). leaves h h' 0)" for pos
    unfolding httpc_dump_cb_def Let_def printf_def
    by (intro post_intros; rule postI) (auto simp: leaves_events)
  have op: "post (httpc_open P d p ssl h) (\<lambda>(r, h'). \<forall>e fd. r = Returned (e, fd) \<longrightarrow> leaves h h' 1)" for d p ssl
    using httpc_open_runs [OF runs_refl, of P d p ssl h]
    by (auto simp: post_def split_beta dest!: runs_leaves)
  from op rd wr du show ?thesis
    by (cases c) (auto simp: post_def split_beta httpc_close_def httpc_allocator_def httpc_sleep_def
        httpc_time_def httpc_logger_def printf_def leaves_events split: option.splits prod.splits outcome.splits)
qed

lemma http_steps_leaves:
  "fst (http_steps P ts cs fd h) \<noteq> Panicked \<Longrightarrow>
     leaves h (snd (http_steps P ts cs fd h)) (int (length (filter is_open cs)))"
proof (induction cs arbitrary: fd h)
  case Nil
  then show ?case by (simp add: leaves_silent grows_refl)
next
  case (Cons c cs)
  obtain r h' where s: "http_step P ts c fd h = (r, h')" by fastforce
  with Cons.prems obtain fd' where r: "r = Returned fd'" by (cases r) auto
  with postD [OF http_step_leaves s] have "leaves h h' (if is_open c then 1 else 0)" by simp
  moreover have "leaves h' (snd (http_steps P ts cs fd' h')) (int (length (filter is_open cs)))"
    using Cons s r by simp
  ultimately show ?case using s r leaves_trans by fastforce
qed

lemma httpc_main_leaves:
  assumes "fst (httpc_main P h) \<noteq> Panicked"
  shows "leaves h (snd (httpc_main P h))
    (int (length (filter is_open (http_script P (h @ [Uptime (uptime_us P h)]) ''http://xdma.org/static/128mb''))))"
proof -
  let ?k = "h @ [Uptime (uptime_us P h)]"
  let ?cs = "http_script P ?k ''http://xdma.org/static/128mb''"
  let ?run = "http_steps P (uptime_us P h div 1000000) ?cs (http_socket P) ?k"
  have "fst ?run \<noteq> Panicked" "snd (httpc_main P h) = snd ?run"
    using assms by (auto simp: httpc_main_def mdx_uptime_def Let_def split: prod.splits outcome.splits)
  moreover have "leaves h ?k 0" by (simp add: leaves_events)
  ultimately show ?thesis using leaves_trans [OF _ http_steps_leaves, of h ?k 0] by fastforce
qed

text \<open>
  C11: exactly how many sockets one connection cycle leaves open, opened minus closed: one for every time the
  HTTP library opened a connection during its run, and one more if and only if the modem registered and the
  NTP query failed, that is returned non-zero, after a socket had been created for it. The TCP
  test leaves none. So every cycle with a download loses at least one of the modem's sockets.
\<close>

theorem lte_connect_leaves:
  assumes "lte_connect P h = Some (Returned r, h')" and "lte_wait P (lte_ats P setup_cmds h) = Some (w, h2)"
  shows "let h_ntp = snd (lte_signal P (printf ''LTE connected'' [] h2));
             h_tcp = snd (ntp_main P h_ntp);
             h_http = (if w = 0 then snd (connect_to_server P h_tcp) else printf ''Failed to connect to LTE'' [] h2)
         in balance (sock_events (new_events h h')) =
           (if w = 0 \<and> fst (ntp_main P h_ntp) \<noteq> 0 \<and> created (sock_events (new_events h_ntp h_tcp)) then 1 else 0) +
           int (length (filter is_open
             (http_script P (h_http @ [Uptime (uptime_us P h_http)]) ''http://xdma.org/static/128mb'')))"
proof -
  define h_ntp where "h_ntp = snd (lte_signal P (printf ''LTE connected'' [] h2))"
  define h_tcp where "h_tcp = snd (ntp_main P h_ntp)"
  define h3 where "h3 = (if w = 0 then snd (connect_to_server P h_tcp) else printf ''Failed to connect to LTE'' [] h2)"
  note defs = h_ntp_def h_tcp_def h3_def
  define h4 where "h4 = snd (httpc_main P h3)"
  have tcp: "w = 0 \<longrightarrow> fst (connect_to_server P h_tcp) \<noteq> Panicked"
    and http: "fst (httpc_main P h3) \<noteq> Panicked" and h': "h' = to_gps P h4"
    unfolding h4_def by (rule lte_connect_cut [OF assms h_tcp_def [unfolded h_ntp_def] h3_def])+
  let ?ntp = "if w = 0 \<and> fst (ntp_main P h_ntp) \<noteq> 0 \<and> created (sock_events (new_events h_ntp h_tcp)) then 1 else 0"
  have n: "leaves h2 h3 ?ntp"
  proof (cases "w = 0")
    case True
    have "leaves h2 h_ntp 0"
      using grows_trans [OF sock_trace.printf_silent sock_trace.lte_signal_grows] by (simp add: leaves_silent h_ntp_def)
    from leaves_trans [OF this leaves_trans [OF ntp_main_leaves [of h_ntp P]
        connect_to_server_leaves [OF tcp [rule_format, OF True], unfolded h_tcp_def]]]
    show ?thesis using True by (simp add: h3_def h_tcp_def)
  next
    case False
    then show ?thesis using h3_def sock_trace.printf_silent by (simp add: leaves_silent)
  qed
  have "leaves h (lte_ats P setup_cmds h) 0" "leaves (lte_ats P setup_cmds h) h2 0" "leaves h4 h' 0"
    using sock_trace.lte_ats_grows sock_trace.lte_wait_grows [OF assms(2)] sock_trace.to_gps_grows
    by (auto simp: h' intro!: leaves_silent)
  from leaves_trans [OF this(1) leaves_trans [OF this(2) leaves_trans [OF n
      leaves_trans [OF httpc_main_leaves [OF http, folded h4_def] this(3)]]]]
  have "balance (sock_events (new_events h h')) =
      ?ntp + int (length (filter is_open (http_script P (h3 @ [Uptime (uptime_us P h3)]) ''http://xdma.org/static/128mb'')))"
    by (auto simp: leaves_def sock_events_shown dest!: grows_new_events)
  then show ?thesis by (simp add: Let_def defs)
qed

text \<open>With a cooperative modem and one download, exactly one socket is left.\<close>

theorem lte_connect_leaves_witness:
  "\<exists>h'. lte_connect (all_ok\<lparr>random_u64 := (\<lambda>h. 7)\<rparr>) [] = Some (Returned 0, h') \<and>
     balance (sock_events (new_events [] h')) = 1"
proof -
  let ?P = "all_ok\<lparr>random_u64 := (\<lambda>h. 7)\<rparr>"
  obtain h' where h': "lte_connect ?P [] = Some (Returned 0, h')" using all_ok_returns by blast
  obtain h1 where w: "lte_wait ?P (lte_ats ?P setup_cmds []) = Some (0, h1)" using all_ok_wait by blast
  have "length (filter is_open (http_script ?P k url)) = 1" for k url by (simp add: all_ok_def)
  moreover have "fst (ntp_main ?P k) = 0" for k
    by (simp add: all_ok_def ntp_main_def ntp_connect_def Let_def run_simps split_beta)
  ultimately have "balance (sock_events (new_events [] h')) = 1"
    using lte_connect_leaves [OF h' w] by (simp only: Let_def simp_thms if_False add_0 of_nat_1)
  with h' show ?thesis by blast
qed

end
