(* ===== verification/Math64.thy ===== *)
theory Math64
  imports Platform
begin

text \<open>
  Integer factorisation (\<^verbatim>\<open>src/src/math.c\<close>): the greatest common divisor, the shift-and-add
  modular multiplication inside Pollard's rho method, \<open>decompose_64bit\<close> and \<open>math_test\<close>.
  All arithmetic is on 64-bit words and wraps. The two operations of the code that have no value
  are errors: a division by zero and a shift of the \<open>int\<close> 1 out of its range.
\<close>

section \<open>Operations\<close>

datatype math_error = Division_by_zero | Shift_overflow

definition rand :: "platform \<Rightarrow> history \<Rightarrow> u64 \<times> history" where
  "rand P h =
     (let num = random_u64 P h
      in (num, printf ''%lu'' [AInt (uint num)] (h @ [Random num])))"

function gcd64 :: "u64 \<Rightarrow> u64 \<Rightarrow> u64" where
  "gcd64 a b = (if b \<noteq> 0 then gcd64 b (a mod b) else a)"
  by auto

lemma word_mod_less_divisor: "b \<noteq> 0 \<Longrightarrow> unat (a mod b) < unat (b :: u64)"
  by (simp add: unat_mod_distrib unat_gt_0)

termination gcd64
  by (relation "measure (\<lambda>(a, b). unat b)") (simp_all add: word_mod_less_divisor)

declare gcd64.simps [simp del]

text \<open>The loop that adds \<open>a * b\<close> to \<open>c\<close> modulo \<open>pq\<close>.\<close>

definition add_mod :: "u64 \<Rightarrow> u64 \<Rightarrow> u64 \<Rightarrow> u64" where
  "add_mod pq c a = (let c = c + a in if c \<ge> pq then c - pq else c)"

function mul_loop :: "u64 \<Rightarrow> u64 \<Rightarrow> u64 \<Rightarrow> u64 \<Rightarrow> u64" where
  "mul_loop pq a b c =
     (if b \<noteq> 0 then
        let c = (if b AND 1 \<noteq> 0 then add_mod pq c a else c);
            a = add_mod pq a a
        in mul_loop pq a (drop_bit 1 b) c
      else c)"
  by auto

lemma unat_drop_bit_1: "unat (drop_bit (Suc 0) (b :: u64)) = unat b div 2"
  by (simp add: drop_bit_eq_div unat_div_distrib)

lemma drop_bit_1_less: "b \<noteq> 0 \<Longrightarrow> unat (drop_bit (Suc 0) (b :: u64)) < unat b"
  by (simp add: unat_drop_bit_1 unat_gt_0)

termination mul_loop
  by (relation "measure (\<lambda>(pq, a, b, c). unat b)") (simp_all add: drop_bit_1_less)

declare mul_loop.simps [simp del]

text \<open>
  The inner loop, from the test \<open>j < lim\<close>: it yields \<open>g\<close> and \<open>iter\<close>, which the code uses
  after it.
\<close>

function rho_loop :: "u64 \<Rightarrow> u64 \<Rightarrow> u64 \<Rightarrow> u64 \<Rightarrow> u64 \<Rightarrow> nat \<Rightarrow> nat \<Rightarrow> nat \<Rightarrow> u64 \<times> nat" where
  "rho_loop pq q x y g j lim iter =
     (if j < lim then
        let iter = iter + 1;
            c = mul_loop pq x x q;
            x = c;
            z = (if x < y then pq + x - y else x - y);
            g = gcd64 z pq
        in if g \<noteq> 1 then (g, iter)
           else rho_loop pq q x (if j AND (j - 1) = 0 then x else y) g (j + 1) lim iter
      else (g, iter))"
  by auto

termination rho_loop
  by (relation "measure (\<lambda>(pq, q, x, y, g, j, lim, iter). lim - j)") auto

declare rho_loop.simps [simp del]

text \<open>
  The outer loop. \<open>1 << (i + 18)\<close> has no value from \<open>i = 13\<close> on.
\<close>

definition rho_round :: "platform \<Rightarrow> u64 \<Rightarrow> u64 \<Rightarrow> nat \<Rightarrow> nat \<Rightarrow> history \<Rightarrow> math_error + (u64 \<times> nat) \<times> history" where
  "rho_round P pq g i iter h =
     (let (r, h) = rand P h
      in if pq = 0 then Inl Division_by_zero
      else let q = ((r AND 15) + 17) mod pq; (r, h) = rand P h
      in if pq - 1 = 0 then Inl Division_by_zero
      else let x = r mod (pq - 1) + 1; y = x
      in if i + 18 \<ge> 31 then Inl Shift_overflow
      else Inr (rho_loop pq q x y g 1 (2 ^ (i + 18)) iter, h))"

function rho_rounds :: "platform \<Rightarrow> u64 \<Rightarrow> u64 \<Rightarrow> nat \<Rightarrow> nat \<Rightarrow> history \<Rightarrow> math_error + u64 \<times> history" where
  "rho_rounds P pq g i iter h =
     (if i < 3 \<or> iter < 1000 then
        case rho_round P pq g i iter h of
          Inl e \<Rightarrow> Inl e
        | Inr ((g, iter), h) \<Rightarrow>
            if g > 1 \<and> g < pq then Inr (g, h) else rho_rounds P pq g (i + 1) iter h
      else Inr (g, h))"
  by auto

lemma rho_round_small: "rho_round P pq g i iter h = Inr r \<Longrightarrow> i < 13"
  by (auto simp: rho_round_def Let_def split: prod.splits if_splits)

termination rho_rounds
  by (relation "measure (\<lambda>(P, pq, g, i, iter, h). 13 - i)") (auto dest: rho_round_small)

declare rho_rounds.simps [simp del]

definition decompose_64bit :: "platform \<Rightarrow> u64 \<Rightarrow> history \<Rightarrow> math_error + (u64 \<times> u64) \<times> history" where
  "decompose_64bit P pq h =
     (case rho_rounds P pq 0 0 0 h of
        Inl e \<Rightarrow> Inl e
      | Inr (g, h) \<Rightarrow>
          if g = 0 then Inl Division_by_zero
          else let p = g; q = pq div g
               in Inr (if p > q then (q, p) else (p, q), h))"

definition math_test :: "platform \<Rightarrow> history \<Rightarrow> math_error + int \<times> history" where
  "math_test P h =
     (let pq = 2341224282031054919;
          h = printf ''decomposing %lld ...'' [AInt (sint pq)] h
      in case decompose_64bit P pq h of
           Inl e \<Rightarrow> Inl e
         | Inr ((p, q), h) \<Rightarrow>
             let h = printf ''p %lld q %lld'' [AInt (sint p), AInt (sint q)] h
             in if p * q = pq then Inr (0, h) else Inr (-1, h))"

section \<open>Lemmas\<close>

lemma unat_gcd64: "unat (gcd64 a b) = gcd (unat a) (unat b)"
proof (induction a b rule: gcd64.induct)
  case (1 a b)
  then show ?case
    by (simp add: gcd64.simps [of a b] unat_mod_distrib gcd.commute [of "unat b"] gcd_red_nat [symmetric])
qed

lemma unat_add_mod:
  assumes "unat c < unat pq" and "unat a < unat pq" and "unat pq \<le> 2 ^ 63"
  shows "unat (add_mod pq c a) = (unat c + unat a) mod unat pq"
proof -
  from assms have sum: "unat (c + a) = unat c + unat a"
    by (subst unat_add_lem [THEN iffD1]) simp_all
  show ?thesis
  proof (cases "unat pq \<le> unat c + unat a")
    case True
    with sum have "unat (c + a - pq) = unat c + unat a - unat pq"
      by (subst unat_sub) (simp_all add: word_le_nat_alt)
    with True sum assms show ?thesis
      by (simp add: add_mod_def word_le_nat_alt mod_if)
  next
    case False
    with sum show ?thesis by (simp add: add_mod_def word_le_nat_alt)
  qed
qed

lemma unat_and_1: "unat ((b :: u64) AND 1) = unat b mod 2"
  by (simp add: and_one_eq unat_mod_distrib)

lemma unat_mul_loop:
  assumes "unat a < unat pq" and "unat c < unat pq" and "unat pq \<le> 2 ^ 63"
  shows "unat (mul_loop pq a b c) = (unat c + unat a * unat b) mod unat pq"
  using assms
proof (induction pq a b c rule: mul_loop.induct)
  case (1 pq a b c)
  show ?case
  proof (cases "b = 0")
    case True
    with "1.prems" show ?thesis by (simp add: mul_loop.simps [of pq a 0 c])
  next
    case False
    define c' where "c' = (if b AND 1 \<noteq> 0 then add_mod pq c a else c)"
    have pos: "0 < unat pq" using "1.prems"(1) by simp
    have odd: "unat b mod 2 = (if b AND 1 \<noteq> 0 then 1 else 0)"
      using unat_and_1 [of b] by (auto simp: unat_eq_zero unat_gt_0 mod2_eq_if split: if_splits)
    have c': "unat c' = (unat c + unat a * (unat b mod 2)) mod unat pq"
      using "1.prems" unat_add_mod [of c pq a] unfolding c'_def odd by simp
    have a': "unat (add_mod pq a a) = (unat a + unat a) mod unat pq"
      using "1.prems" unat_add_mod [of a pq a] by simp
    have "unat (mul_loop pq (add_mod pq a a) (drop_bit 1 b) c') =
        (unat c' + unat (add_mod pq a a) * (unat b div 2)) mod unat pq"
      using "1.IH" [OF False c'_def refl] "1.prems"(3) pos unfolding c' a' by (simp add: unat_drop_bit_1)
    moreover have "mul_loop pq a b c = mul_loop pq (add_mod pq a a) (drop_bit 1 b) c'"
      using False by (simp add: mul_loop.simps [of pq a b c] c'_def Let_def)
    ultimately have "unat (mul_loop pq a b c) =
        (unat c' + unat (add_mod pq a a) * (unat b div 2)) mod unat pq" by simp
    also have "\<dots> = (unat c + unat a * (unat b mod 2) + (unat a + unat a) * (unat b div 2)) mod unat pq"
      unfolding c' a' by (simp only: mod_add_left_eq mod_add_right_eq mod_mult_left_eq
          mod_add_eq [of _ "unat pq" "(_ mod unat pq) * _", symmetric] mod_mod_trivial)
    also have "unat c + unat a * (unat b mod 2) + (unat a + unat a) * (unat b div 2) =
        unat c + unat a * (unat b mod 2 + 2 * (unat b div 2))"
      by (simp only: distrib_left distrib_right mult_2 add.assoc)
    finally show ?thesis by (simp only: mod_mult_div_eq)
  qed
qed

section \<open>Pollard's rho method\<close>

text \<open>
  The sequence, and the position the current element is compared with: the last power of two
  passed (Brent's cycle detection).
\<close>

definition rho_seq :: "nat \<Rightarrow> nat \<Rightarrow> nat \<Rightarrow> nat \<Rightarrow> nat" where
  "rho_seq pq q x j = ((\<lambda>x. (q + x * x) mod pq) ^^ j) x"

fun anchor :: "nat \<Rightarrow> nat" where
  "anchor 0 = 0"
| "anchor (Suc j) = (if \<exists>k. j = 2 ^ k then j else anchor j)"

definition rho_gcd :: "nat \<Rightarrow> nat \<Rightarrow> nat \<Rightarrow> nat \<Rightarrow> int" where
  "rho_gcd pq q x j = gcd (int (rho_seq pq q x j) - int (rho_seq pq q x (anchor j))) (int pq)"

lemma power_of_two_test: "0 < j \<Longrightarrow> (j :: nat) AND (j - 1) = 0 \<longleftrightarrow> (\<exists>k. j = 2 ^ k)"
proof (induction j rule: less_induct)
  case (less j)
  show ?case
  proof (cases "even j")
    case True
    then obtain m where m: "j = 2 * m" by blast
    with less.prems have "0 < m" "j - 1 = 1 + 2 * (m - 1)" by auto
    then have "j AND (j - 1) = 2 * (m AND (m - 1))"
      unfolding m by (simp add: and_rec [of "2 * m"])
    moreover have "(\<exists>k. j = 2 ^ k) \<longleftrightarrow> (\<exists>k. m = 2 ^ k)"
    proof
      assume "\<exists>k. j = 2 ^ k"
      then obtain k where "j = 2 ^ k" by blast
      with True m show "\<exists>k. m = 2 ^ k" by (cases k) auto
    next
      assume "\<exists>k. m = 2 ^ k"
      with m show "\<exists>k. j = 2 ^ k" by (metis power_Suc)
    qed
    ultimately show ?thesis using less.IH [of m] m \<open>0 < m\<close> by simp
  next
    case False
    then obtain m where m: "j = 1 + 2 * m" by (metis oddE add.commute)
    then have "j AND (j - 1) = 2 * m" by (simp add: and_rec [of "Suc (2 * m)"])
    moreover have "(\<exists>k. j = 2 ^ k) \<longleftrightarrow> m = 0"
    proof
      assume "\<exists>k. j = 2 ^ k"
      then obtain k where "j = 2 ^ k" by blast
      with False show "m = 0" using m by (cases k) (simp_all, presburger?)
    next
      assume "m = 0"
      with m have "j = 2 ^ 0" by simp
      then show "\<exists>k. j = 2 ^ k" by blast
    qed
    ultimately show ?thesis by simp
  qed
qed

lemma uint_difference:
  assumes "unat x < unat pq" and "unat y < unat (pq :: u64)"
  shows "gcd (int (unat (if x < y then pq + x - y else x - y))) (int (unat pq)) =
    gcd (int (unat x) - int (unat y)) (int (unat pq))"
proof (cases "x < y")
  case True
  then have "uint (pq - (y - x)) = uint pq - (uint y - uint x)"
    using assms uint_ge_0 [of x] order_trans [of "uint y - uint x" "uint y" "uint pq"]
    by (simp add: uint_sub_if' word_less_def flip: uint_nat of_nat_less_iff [where 'a = int])
  with True have "int (unat (if x < y then pq + x - y else x - y)) =
      (int (unat x) - int (unat y)) + int (unat pq)"
    by (simp add: algebra_simps)
  then show ?thesis by (simp only: gcd_add1)
next
  case False
  then have "uint (x - y) = uint x - uint y" by (simp add: uint_sub_if' word_less_def)
  with False show ?thesis by simp
qed

text \<open>One pass of the inner loop computes the next element of the sequence and its divisor.\<close>

lemma rho_pass:
  assumes "unat pq \<le> 2 ^ 63" and "unat q < unat pq" and "0 < j"
    and "unat x = rho_seq (unat pq) (unat q) a (j - 1)" and "unat x < unat pq"
    and "unat y = rho_seq (unat pq) (unat q) a (anchor j)" and "unat y < unat pq"
  defines "x' \<equiv> mul_loop pq x x q"
  shows "unat x' = rho_seq (unat pq) (unat q) a j" and "unat x' < unat pq"
    and "int (unat (gcd64 (if x' < y then pq + x' - y else x' - y) pq)) = rho_gcd (unat pq) (unat q) a j"
proof -
  from assms(3) obtain i where i: "j = Suc i" by (cases j) auto
  have x': "unat x' = (unat q + unat x * unat x) mod unat pq"
    using assms unat_mul_loop [of x pq q x] by simp
  with assms(4) show seq: "unat x' = rho_seq (unat pq) (unat q) a j"
    by (simp add: rho_seq_def i)
  from x' assms(2) show "unat x' < unat pq" by simp
  with uint_difference [OF this assms(7)] show
    "int (unat (gcd64 (if x' < y then pq + x' - y else x' - y) pq)) = rho_gcd (unat pq) (unat q) a j"
    by (simp add: unat_gcd64 rho_gcd_def seq assms(6) gcd_int_int_eq [symmetric] del: gcd_int_int_eq)
qed

lemma rho_loop_spec:
  assumes "unat pq \<le> 2 ^ 63" and "unat q < unat pq" and "0 < j" and "j < lim"
    and "unat x = rho_seq (unat pq) (unat q) a (j - 1)" and "unat x < unat pq"
    and "unat y = rho_seq (unat pq) (unat q) a (anchor j)" and "unat y < unat pq"
  shows "\<exists>n. j \<le> n \<and> n < lim \<and> (\<forall>i. j \<le> i \<and> i < n \<longrightarrow> rho_gcd (unat pq) (unat q) a i = 1) \<and>
    (rho_gcd (unat pq) (unat q) a n \<noteq> 1 \<or> Suc n = lim) \<and>
    int (unat (fst (rho_loop pq q x y g j lim iter))) = rho_gcd (unat pq) (unat q) a n \<and>
    snd (rho_loop pq q x y g j lim iter) = iter + (n + 1 - j)"
  using assms
proof (induction pq q x y g j lim iter rule: rho_loop.induct)
  case (1 pq q x y g j lim iter)
  define x' where "x' = mul_loop pq x x q"
  define g' where "g' = gcd64 (if x' < y then pq + x' - y else x' - y) pq"
  define y' where "y' = (if j AND (j - 1) = 0 then x' else y)"
  note pass = rho_pass [OF "1.prems"(1-3) "1.prems"(5-8), folded x'_def, folded g'_def]
  have step: "rho_loop pq q x y g j lim iter =
      (if g' \<noteq> 1 then (g', iter + 1) else rho_loop pq q x' y' g' (j + 1) lim (iter + 1))"
    using "1.prems"(4) by (simp add: rho_loop.simps [of pq q x] Let_def x'_def g'_def y'_def)
  show ?case
  proof (cases "g' = 1 \<and> j + 1 < lim")
    case True
    have y': "unat y' = rho_seq (unat pq) (unat q) a (anchor (j + 1))" "unat y' < unat pq"
      using "1.prems" pass power_of_two_test [of j] by (simp_all add: y'_def)
    obtain n where n: "j + 1 \<le> n" "n < lim"
      "\<forall>i. j + 1 \<le> i \<and> i < n \<longrightarrow> rho_gcd (unat pq) (unat q) a i = 1"
      "rho_gcd (unat pq) (unat q) a n \<noteq> 1 \<or> Suc n = lim"
      "int (unat (fst (rho_loop pq q x' y' g' (j + 1) lim (iter + 1)))) = rho_gcd (unat pq) (unat q) a n"
      "snd (rho_loop pq q x' y' g' (j + 1) lim (iter + 1)) = iter + 1 + (n + 1 - (j + 1))"
      using "1.IH" [OF "1.prems"(4) refl refl refl refl refl, folded x'_def, folded g'_def, folded y'_def]
        True pass(1,2) y' "1.prems"(1-3) by fastforce
    moreover have "rho_gcd (unat pq) (unat q) a i = 1" if "j \<le> i \<and> i < n" for i
      using that n(3) pass(3) True by (cases "i = j") auto
    ultimately show ?thesis using True step by (intro exI [of _ n]) auto
  next
    case False
    have end_g: "rho_loop pq q x y g j lim iter = (g', iter + 1)"
    proof (cases "g' = 1")
      case True
      with False have "\<not> j + 1 < lim" by simp
      with True step show ?thesis by (simp add: rho_loop.simps [of pq q x' y' 1 "Suc j"])
    qed (use step in simp)
    have "g' \<noteq> 1 \<longrightarrow> rho_gcd (unat pq) (unat q) a j \<noteq> 1"
      using pass(3) by (metis of_nat_1 of_nat_eq_iff unat_1 unsigned_word_eqI)
    with False "1.prems"(4) pass(3) end_g show ?thesis by (intro exI [of _ j]) auto
  qed
qed

text \<open>Every divisor the inner loop yields divides \<open>pq\<close>, also where the arithmetic wraps.\<close>

lemma gcd64_dvd: "unat (gcd64 a b) dvd unat b"
  by (simp add: unat_gcd64)

lemma rho_loop_dvd:
  "j < lim \<or> unat g dvd unat pq \<Longrightarrow> unat (fst (rho_loop pq q x y g j lim iter)) dvd unat pq"
proof (induction pq q x y g j lim iter rule: rho_loop.induct)
  case (1 pq q x y g j lim iter)
  then show ?case
    by (auto simp: rho_loop.simps [of pq q x y] Let_def gcd64_dvd)
qed

lemma rho_round_dvd:
  "rho_round P pq g i iter h = Inr ((g', iter'), h') \<Longrightarrow> unat g' dvd unat pq \<and> i < 13"
  using rho_loop_dvd [of 1 "2 ^ (i + 18)" g pq] one_less_power [of "2 :: nat" "i + 18"]
  by (auto simp: rho_round_def Let_def split: prod.splits if_splits) (metis fst_conv)

lemma rho_rounds_dvd:
  "i < 3 \<or> unat g dvd unat pq \<Longrightarrow> rho_rounds P pq g i iter h = Inr (g', h') \<Longrightarrow> unat g' dvd unat pq"
proof (induction P pq g i iter h rule: rho_rounds.induct)
  case (1 P pq g i iter h)
  show ?case
  proof (cases "rho_round P pq g i iter h")
    case (Inl e)
    with "1.prems" show ?thesis by (auto simp: rho_rounds.simps [of P pq g i iter h] split: if_splits)
  next
    case (Inr r)
    obtain g1 iter1 h1 where r: "r = ((g1, iter1), h1)" by (cases r) auto
    with rho_round_dvd Inr have dvd: "unat g1 dvd unat pq" by blast
    with "1.prems" "1.IH" [OF _ Inr r [symmetric] refl] Inr r show ?thesis
      by (auto simp: rho_rounds.simps [of P pq g i iter h] split: if_splits)
  qed
qed

lemma rho_rounds_no_division:
  "1 < unat pq \<Longrightarrow> rho_rounds P pq g i iter h \<noteq> Inl Division_by_zero"
proof (induction P pq g i iter h rule: rho_rounds.induct)
  case (1 P pq g i iter h)
  from "1.prems" have "pq \<noteq> 0" "pq - 1 \<noteq> 0" by auto
  then have "rho_round P pq g i iter h \<noteq> Inl Division_by_zero"
    by (auto simp: rho_round_def Let_def split: prod.splits)
  with "1.IH" "1.prems" show ?case
    by (auto simp: rho_rounds.simps [of P pq g i iter h] split: sum.splits prod.splits)
qed

lemma unat_product: "unat p * unat q = unat (pq :: u64) \<Longrightarrow> p * q = pq"
  by (drule arg_cong [where f = "of_nat :: nat \<Rightarrow> u64"]) simp

section \<open>Properties\<close>

lemma decompose_factors:
  assumes "1 < unat pq"
  shows "decompose_64bit P pq h = Inl Shift_overflow \<or>
    (\<exists>p q h'. decompose_64bit P pq h = Inr ((p, q), h') \<and> p \<le> q \<and> unat p * unat q = unat pq)"
proof (cases "rho_rounds P pq 0 0 0 h")
  case (Inl e)
  then show ?thesis using rho_rounds_no_division [OF assms, of P 0 0 0 h]
    by (cases e) (simp_all add: decompose_64bit_def)
next
  case (Inr r)
  obtain g h' where r: "r = (g, h')" by (cases r)
  with Inr have dvd: "unat g dvd unat pq" using rho_rounds_dvd [of 0 0 pq P 0 h] by simp
  with assms have "g \<noteq> 0" by (intro notI) simp
  moreover have "unat g * unat (pq div g) = unat pq" using dvd by (simp add: unat_div_distrib)
  ultimately show ?thesis using Inr r by (auto simp: decompose_64bit_def Let_def mult.commute)
qed

text \<open>
  C3: whatever the random numbers, \<open>decompose_64bit\<close> on a number greater than one either
  returns two ordered factors whose product is exactly the number, or runs into the shift
  overflow; it always ends and never divides by zero.
\<close>

theorem decompose_64bit_factors:
  assumes "1 < unat pq"
  shows "decompose_64bit P pq h = Inl Shift_overflow \<or>
    (\<exists>p q h'. decompose_64bit P pq h = Inr ((p, q), h') \<and> p \<le> q \<and> unat p * unat q = unat pq)"
  using assms by (rule decompose_factors)

text \<open>With the random number 1 the method splits 15 in the first pass.\<close>

lemma decompose_15:
  "\<exists>h'. decompose_64bit (all_ok\<lparr>random_u64 := (\<lambda>h. 1)\<rparr>) 15 [] = Inr ((3, 5), h')"
  by (simp add: decompose_64bit_def rho_rounds.simps rho_round_def rand_def rho_loop.simps
      mul_loop.simps gcd64.simps add_mod_def Let_def run_simps)

theorem decompose_64bit_factors_witness:
  "\<exists>p q h'. decompose_64bit (all_ok\<lparr>random_u64 := (\<lambda>h. 1)\<rparr>) 15 [] = Inr ((p, q), h') \<and> p \<le> q \<and>
     unat p * unat q = 15 \<and> p = 3"
  using decompose_64bit_factors [of 15 "all_ok\<lparr>random_u64 := (\<lambda>h. 1)\<rparr>" "[]"] decompose_15
  by auto

text \<open>
  The self test can only report success: when \<open>math_test\<close> returns, it returns 0, so its
  error branch is dead. The test multiplies the two numbers back together, which also succeeds
  for the trivial factors 1 and \<open>pq\<close>.
\<close>

lemma math_test_result:
  "math_test P h = Inl Shift_overflow \<or> (\<exists>h'. math_test P h = Inr (0, h'))"
proof -
  define pq where "pq = (2341224282031054919 :: u64)"
  have "1 < unat pq" by (simp add: pq_def)
  then show ?thesis
    using decompose_factors [of pq P "printf ''decomposing %lld ...'' [AInt (sint pq)] h"]
    by (auto simp: math_test_def pq_def [symmetric] Let_def dest: unat_product)
qed

text \<open>
  C12: the inner loop is Pollard's method with Brent's cycle detection: for moduli up to
  \<open>2 ^ 63\<close>, where the additions do not wrap, it follows the sequence \<open>x, x\<^sup>2 + q, \<dots>\<close> modulo
  \<open>pq\<close>, compares each element with the one at the last power of two, and stops at the first
  common divisor other than 1, or at the limit; the number of passes is added to \<open>iter\<close>.
\<close>

theorem rho_loop_brent:
  assumes "unat pq \<le> 2 ^ 63" and "q < pq" and "x < pq" and "1 < lim"
  shows "\<exists>n. 1 \<le> n \<and> n < lim \<and> (\<forall>i. 1 \<le> i \<and> i < n \<longrightarrow> rho_gcd (unat pq) (unat q) (unat x) i = 1) \<and>
    (rho_gcd (unat pq) (unat q) (unat x) n \<noteq> 1 \<or> Suc n = lim) \<and>
    int (unat (fst (rho_loop pq q x x g 1 lim iter))) = rho_gcd (unat pq) (unat q) (unat x) n \<and>
    snd (rho_loop pq q x x g 1 lim iter) = iter + n"
  using rho_loop_spec [of pq q 1 lim x "unat x" x g iter] assms
  by (simp add: rho_seq_def word_less_nat_alt)

theorem rho_loop_brent_witness:
  "int (unat (fst (rho_loop 15 3 2 2 0 1 2 0))) = rho_gcd 15 3 2 1 \<and> rho_gcd 15 3 2 1 = 5"
proof -
  have "rho_gcd 15 3 2 1 = 5"
    by (simp add: rho_gcd_def rho_seq_def gcd_non_0_int)
  moreover obtain n where "1 \<le> n" "n < 2"
    "int (unat (fst (rho_loop 15 3 2 2 0 1 2 0))) = rho_gcd 15 3 2 n"
    using rho_loop_brent [of 15 3 2 2 0 0] by auto
  moreover from this have "n = 1" by simp
  ultimately show ?thesis by simp
qed

text \<open>
  C29: the modular multiplication and the greatest common divisor are right: for moduli up to
  \<open>2 ^ 63\<close> the shift-and-add loop computes \<open>(c + a * b) mod pq\<close> on reduced arguments without
  wrap-around, and the recursion computes the mathematical greatest common divisor.
\<close>

theorem mul_loop_correct:
  assumes "a < pq" and "c < pq" and "unat pq \<le> 2 ^ 63"
  shows "unat (mul_loop pq a b c) = (unat c + unat a * unat b) mod unat pq \<and>
    unat (gcd64 b pq) = gcd (unat b) (unat pq)"
  using assms by (simp add: word_less_nat_alt unat_mul_loop unat_gcd64)

theorem mul_loop_correct_witness:
  "unat (mul_loop 1000 999 (2 ^ 40) 7) = (7 + 999 * 2 ^ 40) mod 1000"
  using mul_loop_correct [of 999 1000 7 "2 ^ 40"] by simp

lemma mod_two_values:
  "mul_loop 2 1 1 0 = 1" "mul_loop 2 1 1 1 = 0" "mul_loop 2 0 0 1 = 1" "gcd64 0 2 = 2" "gcd64 1 2 = 1"
  by (simp_all add: mul_loop.simps gcd64.simps add_mod_def Let_def word_le_nat_alt)

lemma rho_loop_two:
  assumes "5 < lim" and "q = 0 \<or> q = 1"
  shows "\<exists>n \<le> 4. rho_loop 2 q 1 1 g 1 lim iter = (2, iter + n)"
proof (cases "q = 0")
  case True
  with assms(1) show ?thesis
    by (intro exI [of _ 1]) (simp add: rho_loop.simps [of 2 0 1 1 g] mod_two_values Let_def)
next
  case False
  with assms have q: "q = 1" and lim: "1 < lim" "2 < lim" "3 < lim" "4 < lim" by auto
  have "rho_loop 2 1 1 1 g 1 lim iter = rho_loop 2 1 0 0 1 2 lim (iter + 1)"
    using lim by (simp add: rho_loop.simps [of 2 1 1 1 g 1] mod_two_values Let_def flip: One_nat_def)
  also have "\<dots> = rho_loop 2 1 1 1 1 3 lim (iter + 2)"
    using lim by (simp add: rho_loop.simps [of 2 1 0 0 1 2] mod_two_values Let_def)
  also have "\<dots> = rho_loop 2 1 0 1 1 4 lim (iter + 3)"
    using lim by (simp add: rho_loop.simps [of 2 1 1 1 1 3] mod_two_values Let_def Suc3_eq_add_3 add.commute [of _ 3])
  also have "\<dots> = (2, iter + 4)"
    using lim by (simp add: rho_loop.simps [of 2 1 0 1 1 4] mod_two_values Let_def)
  finally show ?thesis using q by blast
qed

lemma rho_rounds_two:
  "iter \<le> 4 * i \<Longrightarrow> i \<le> 13 \<Longrightarrow> rho_rounds P 2 g i iter h = Inl Shift_overflow"
proof (induction "13 - i" arbitrary: g i iter h)
  case 0
  then show ?case
    by (simp add: rho_rounds.simps [of P 2 g 13] rho_round_def rand_def Let_def printf_def)
next
  case (Suc k)
  define q :: u64 where "q = ((random_u64 P h AND 15) + 17) mod 2"
  have "unat q < 2" unfolding q_def by (simp add: unat_mod_distrib)
  then have q: "q = 0 \<or> q = 1" by (auto simp: word_unat_eq_iff less_2_cases_iff)
  have "(5 :: nat) < 2 ^ (i + 18)"
    by (rule less_le_trans [of _ "2 ^ 18"]) (simp, rule power_increasing, simp_all)
  with q rho_loop_two obtain n where n: "n \<le> 4" "rho_loop 2 q 1 1 g 1 (2 ^ (i + 18)) iter = (2, iter + n)"
    by blast
  have "r mod (2 - 1) + 1 = (1 :: u64)" for r by (simp add: mod_by_1)
  moreover have "\<not> 31 \<le> i + 18" using Suc.hyps(2) by simp
  ultimately obtain h' where "rho_round P 2 g i iter h = Inr ((2, iter + n), h')"
    using n(2) by (simp add: rho_round_def rand_def Let_def printf_def q_def)
  moreover have "rho_rounds P 2 2 (i + 1) (iter + n) h' = Inl Shift_overflow"
    using Suc.prems Suc.hyps(2) n(1) by (intro Suc.hyps(1)) auto
  ultimately show ?case using Suc.prems by (simp add: rho_rounds.simps [of P 2 g i])
qed

text \<open>
  C30: for the smallest prime the search never succeeds and never gives up: whatever the random
  numbers, each round ends after at most four passes, so the bound of 1000 passes is not
  reached before the shift in the fourteenth round leaves the range of \<open>int\<close>.
\<close>

theorem decompose_two_overflows: "decompose_64bit P 2 h = Inl Shift_overflow"
  by (simp add: decompose_64bit_def rho_rounds_two)

section \<open>How long the search runs\<close>

text \<open>
  The states in which the outer loop tests its condition: \<open>g\<close>, \<open>i\<close>, \<open>iter\<close> and the history.
\<close>

inductive rho_reaches :: "platform \<Rightarrow> u64 \<Rightarrow> history \<Rightarrow> u64 \<Rightarrow> nat \<Rightarrow> nat \<Rightarrow> history \<Rightarrow> bool"
  for P pq h where
  start: "rho_reaches P pq h 0 0 0 h"
| round: "rho_reaches P pq h g i iter h1 \<Longrightarrow> i < 3 \<or> iter < 1000 \<Longrightarrow>
    rho_round P pq g i iter h1 = Inr ((g', iter'), h2) \<Longrightarrow> \<not> (1 < g' \<and> g' < pq) \<Longrightarrow>
    rho_reaches P pq h g' (i + 1) iter' h2"

lemma rho_loop_passes:
  "j < lim \<Longrightarrow> iter < snd (rho_loop pq q x y g j lim iter) \<and>
     snd (rho_loop pq q x y g j lim iter) \<le> iter + (lim - j)"
proof (induction pq q x y g j lim iter rule: rho_loop.induct)
  case (1 pq q x y g j lim iter)
  define x' where "x' = mul_loop pq x x q"
  define g' where "g' = gcd64 (if x' < y then pq + x' - y else x' - y) pq"
  define y' where "y' = (if j AND (j - 1) = 0 then x' else y)"
  have step: "rho_loop pq q x y g j lim iter =
      (if g' \<noteq> 1 then (g', iter + 1) else rho_loop pq q x' y' g' (j + 1) lim (iter + 1))"
    using "1.prems" by (simp add: rho_loop.simps [of pq q x] Let_def x'_def g'_def y'_def)
  show ?case
  proof (cases "g' = 1 \<and> j + 1 < lim")
    case True
    with "1.IH" [OF "1.prems" refl refl refl refl refl, folded x'_def, folded g'_def, folded y'_def] step
    show ?thesis by auto
  next
    case False
    with step "1.prems" show ?thesis by (auto simp: rho_loop.simps [of pq q x' y' 1 "Suc j"])
  qed
qed

lemma rho_round_passes:
  assumes "rho_round P pq g i iter h = Inr ((g', iter'), h')"
  shows "i < 13 \<and> iter < iter' \<and> iter' \<le> iter + (2 ^ (i + 18) - 1)"
proof -
  from assms obtain q x where "rho_loop pq q x x g 1 (2 ^ (i + 18)) iter = (g', iter')" "i < 13"
    by (auto simp: rho_round_def Let_def split: prod.splits if_splits)
  with rho_loop_passes [of 1 "2 ^ (i + 18)" iter pq q x x g] one_less_power [of "2 :: nat" "i + 18"]
  show ?thesis by simp
qed

definition is_random :: "event \<Rightarrow> bool" where
  "is_random e \<longleftrightarrow> (case e of Random _ \<Rightarrow> True | _ \<Rightarrow> False)"

lemma rho_round_draws:
  assumes "rho_round P pq g i iter h = Inr (r, h')"
  shows "\<exists>evs. h' = h @ evs \<and> length (filter is_random evs) = 2"
  using assms by (auto simp: rho_round_def rand_def Let_def printf_def is_random_def split: if_splits)

lemma rho_reaches_draws:
  "rho_reaches P pq h g i iter h' \<Longrightarrow> \<exists>evs. h' = h @ evs \<and> length (filter is_random evs) = 2 * i"
proof (induction rule: rho_reaches.induct)
  case (round g i iter h1 g' iter' h2)
  then obtain evs where "h1 = h @ evs" "length (filter is_random evs) = 2 * i" by blast
  moreover obtain evs' where "h2 = h1 @ evs'" "length (filter is_random evs') = 2"
    using rho_round_draws [OF round.hyps(3)] by blast
  ultimately show ?case by (intro exI [of _ "evs @ evs'"]) simp
qed simp

lemma rho_reaches_bounds:
  "rho_reaches P pq h g i iter h' \<Longrightarrow> i \<le> 13 \<and> i \<le> iter \<and> iter \<le> 2 ^ 18 * (2 ^ i - 1)"
proof (induction rule: rho_reaches.induct)
  case (round g i iter h1 g' iter' h2)
  have "(1 :: nat) \<le> 2 ^ i" by simp
  then have "2 ^ 18 * (2 ^ i - 1) + (2 ^ (i + 18) - 1) \<le> 2 ^ 18 * (2 ^ (i + 1) - (1 :: nat))"
    by (simp add: power_add algebra_simps)
  with rho_round_passes [OF round.hyps(3)] round.IH show ?case by auto
qed simp

lemma rho_reaches_rounds:
  "rho_reaches P pq h g i iter h' \<Longrightarrow> rho_rounds P pq 0 0 0 h = rho_rounds P pq g i iter h'"
proof (induction rule: rho_reaches.induct)
  case (round g i iter h1 g' iter' h2)
  then show ?case by (auto simp: rho_rounds.simps [of P pq g i iter h1])
qed simp

text \<open>
  C8: the search is short and its counter does not overflow: in every state in which the outer loop of
  \<open>decompose_64bit\<close> tests its condition, at most 13 rounds have been completed, each of which made at
  least one pass and drew exactly two random numbers, and the number of passes stays within the range
  of the \<open>int\<close> that counts them.
\<close>

theorem rho_counter_bounds:
  assumes "rho_reaches P pq h g i iter h'"
  shows "rho_rounds P pq 0 0 0 h = rho_rounds P pq g i iter h' \<and> i \<le> 13 \<and> i \<le> iter \<and>
    iter \<le> 2 ^ 18 * (2 ^ i - 1) \<and> in_int (int iter) \<and>
    length (filter is_random (new_events h h')) = 2 * i"
proof -
  note b = rho_reaches_bounds [OF assms]
  then have "(2 :: nat) ^ i \<le> 2 ^ 13" by (intro power_increasing) auto
  then have "2 ^ 18 * (2 ^ i - 1) \<le> 2 ^ 18 * (2 ^ 13 - (1 :: nat))"
    by (intro mult_left_mono diff_le_mono) simp_all
  with b have "iter < 2 ^ 31" by simp
  then have "in_int (int iter)" by (simp add: in_int_def)
  with b rho_reaches_rounds [OF assms] rho_reaches_draws [OF assms] show ?thesis by auto
qed

theorem rho_counter_bounds_witness:
  "\<exists>iter h'. rho_reaches all_ok 2 [] 2 1 iter h' \<and> 1 \<le> iter \<and> iter \<le> 2 ^ 18 \<and>
     length (filter is_random (new_events [] h')) = 2"
proof -
  obtain n where "rho_loop 2 1 1 1 0 1 (2 ^ 18) 0 = (2, n)"
    using rho_loop_two [of "2 ^ 18" 1 0 0] by auto
  then obtain h' where "rho_round all_ok 2 0 0 0 [] = Inr ((2, n), h')"
    by (simp add: rho_round_def rand_def all_ok_def Let_def printf_def)
  from rho_reaches.round [OF rho_reaches.start _ this] have r: "rho_reaches all_ok 2 [] 2 1 n h'" by simp
  with rho_counter_bounds [OF r] show ?thesis by auto
qed

end
