(* ===== verification/Gps.thy ===== *)
theory Gps
  imports Platform
begin

text \<open>
  The GNSS receiver (\<^verbatim>\<open>src/src/gps.c\<close>): configuration and start, the satellite statistics and
  the event handler. The numeric constants of the modem library, the data it returns and the
  conversion of coordinates to text are parameters.
\<close>

section \<open>Data\<close>

record nrf_modem_gnss_sv =
  sv :: int
  signal :: int
  cn0 :: int
  elevation :: int
  azimuth :: int
  sv_flags :: u32

record 'd pvt_frame =
  svs :: "nrf_modem_gnss_sv list"
  pvt_flags :: u32
  latitude :: 'd
  longitude :: 'd

text \<open>
  The parameters: constants of \<^verbatim>\<open>nrf_modem_gnss.h\<close>, what a successful read stores, and
  \<open>ftoa\<close>. A frame holds \<open>NRF_MODEM_GNSS_MAX_SATELLITES\<close> satellite entries.
\<close>

record 'd gnss_lib =
  EVT_PVT :: int
  EVT_NMEA :: int
  EVT_AGNSS_REQ :: int
  SV_FLAG_USED_IN_FIX :: u32
  SV_FLAG_UNHEALTHY :: u32
  PVT_FLAG_NOT_ENOUGH_WINDOW_TIME :: u32
  PVT_FLAG_DEADLINE_MISSED :: u32
  PVT_FLAG_FIX_VALID :: u32
  PSM_DISABLED :: int
  NMEA_GGA_MASK :: int
  pvt_data :: "history \<Rightarrow> 'd pvt_frame"
  nmea_str :: "history \<Rightarrow> string"
  ftoa :: "'d \<Rightarrow> string"

section \<open>Operations\<close>

definition print_sv :: "'d gnss_lib \<Rightarrow> nrf_modem_gnss_sv \<Rightarrow> history \<Rightarrow> history" where
  "print_sv L v h =
     (if sv v > 0 \<and> sv v \<le> 32 then
        let h = printf ''sv %d signal %d cn0 %d elev %d az %d flag %x''
                  [AInt (sv v), AInt (signal v), AInt (cn0 v), AInt (elevation v), AInt (azimuth v),
                   AInt (uint (sv_flags v))] h;
            h = (if sv_flags v AND SV_FLAG_USED_IN_FIX L \<noteq> 0 then printf ''sat in fix %d'' [AInt (sv v)] h else h)
        in if sv_flags v AND SV_FLAG_UNHEALTHY L \<noteq> 0 then printf ''sat unhealthy %d'' [AInt (sv v)] h else h
      else h)"

definition print_stats :: "'d gnss_lib \<Rightarrow> 'd pvt_frame \<Rightarrow> history \<Rightarrow> history" where
  "print_stats L pvt h = fold (print_sv L) (svs pvt) h"

definition gps_init :: "platform \<Rightarrow> 'd gnss_lib \<Rightarrow> history \<Rightarrow> int \<times> history" where
  "gps_init P L h =
     (let (_, h) = gnss P Gnss_event_handler_set h;
          fix_retry = 0;
          fix_interval = 1;
          nmea_mask = NMEA_GGA_MASK L;
          power_mode = PSM_DISABLED L;
          (error, h) = gnss P (Gnss_power_mode_set power_mode) h
      in if error \<noteq> 0 then (-1, printf ''Can't set power mode: error %d'' [AInt error] h)
      else let (error, h) = gnss P (Gnss_fix_retry_set fix_retry) h
      in if error \<noteq> 0 then (-1, printf ''Can't set fix retry: error %d'' [AInt error] h)
      else let (error, h) = gnss P (Gnss_fix_interval_set fix_interval) h
      in if error \<noteq> 0 then (-1, printf ''Can't set fix interval: error %d'' [AInt error] h)
      else let (error, h) = gnss P (Gnss_nmea_mask_set nmea_mask) h
      in if error \<noteq> 0 then (-1, printf ''Can't set NMEA mask: error %d'' [AInt error] h)
      else let (_, h) = gnss P Gnss_start h
           in (0, h))"

definition gnss_event_handler :: "platform \<Rightarrow> 'd gnss_lib \<Rightarrow> int \<Rightarrow> history \<Rightarrow> history" where
  "gnss_event_handler P L event h =
     (if event = EVT_PVT L then
        let (error, h) = gnss P Gnss_read_pvt h
        in if error \<noteq> 0 then printf ''Could not read PVT'' [] h
        else let pvt = pvt_data L h;
                 h = print_stats L pvt h
        in if pvt_flags pvt AND PVT_FLAG_NOT_ENOUGH_WINDOW_TIME L \<noteq> 0 then printf ''GPS blocked'' [] h
        else if pvt_flags pvt AND PVT_FLAG_DEADLINE_MISSED L \<noteq> 0 then printf ''pvt deadline missed'' [] h
        else if pvt_flags pvt AND PVT_FLAG_FIX_VALID L \<noteq> 0 then
          printf ''pvt data: latitude %s longitude %s''
            [AStr (ftoa L (latitude pvt)), AStr (ftoa L (longitude pvt))] h
        else h
      else if event = EVT_NMEA L then
        let (error, h) = gnss P Gnss_read_nmea h
        in if error = 0 then printf ''nmea data: %s'' [AStr (nmea_str L h)] h else h
      else if event = EVT_AGNSS_REQ L then printf ''agns data id'' [] h
      else printf ''unknown event id %d'' [AInt event] h)"

section \<open>Lemmas\<close>

fun gnss_events :: "history \<Rightarrow> (gnss_call \<times> int) list" where
  "gnss_events [] = []"
| "gnss_events (Gnss c r # h) = (c, r) # gnss_events h"
| "gnss_events (_ # h) = gnss_events h"

lemma gnss_events_append [simp]: "gnss_events (h @ h') = gnss_events h @ gnss_events h'"
  by (induction h rule: gnss_events.induct) auto

text \<open>The configuration in its order.\<close>

definition gnss_config :: "'d gnss_lib \<Rightarrow> gnss_call list" where
  "gnss_config L = [Gnss_power_mode_set (PSM_DISABLED L), Gnss_fix_retry_set 0, Gnss_fix_interval_set 1,
     Gnss_nmea_mask_set (NMEA_GGA_MASK L)]"

definition is_position :: "event \<Rightarrow> bool" where
  "is_position e \<longleftrightarrow> (\<exists>args. e = Printf ''pvt data: latitude %s longitude %s'' args)"

lemma print_sv_events:
  "\<exists>evs. print_sv L v h = h @ evs \<and> gnss_events evs = [] \<and> list_all (\<lambda>e. \<not> is_position e) evs"
  by (auto simp: print_sv_def printf_def Let_def is_position_def)

lemma print_stats_events:
  "\<exists>evs. print_stats L pvt h = h @ evs \<and> gnss_events evs = [] \<and> list_all (\<lambda>e. \<not> is_position e) evs"
proof -
  have "\<exists>evs. fold (print_sv L) vs h = h @ evs \<and> gnss_events evs = [] \<and> list_all (\<lambda>e. \<not> is_position e) evs" for vs
  proof (induction vs arbitrary: h)
    case Nil
    then show ?case by simp
  next
    case (Cons v vs)
    obtain evs where evs: "print_sv L v h = h @ evs" "gnss_events evs = []" "list_all (\<lambda>e. \<not> is_position e) evs"
      using print_sv_events by blast
    from Cons [of "h @ evs"] obtain evs' where "fold (print_sv L) vs (h @ evs) = h @ evs @ evs'"
      "gnss_events evs' = []" "list_all (\<lambda>e. \<not> is_position e) evs'" by auto
    with evs show ?case by (intro exI [of _ "evs @ evs'"]) simp
  qed
  then show ?thesis by (simp add: print_stats_def)
qed

section \<open>Properties\<close>

text \<open>
  C32: \<open>gps_init\<close> installs the event handler, then applies the four settings in order and stops at
  the first that the modem refuses: it starts the receiver and returns 0 exactly when all four
  were accepted, and otherwise returns -1 with the receiver not started. The results of
  installing the handler and of the start itself are not looked at.
\<close>

theorem gps_init_sequence:
  "(\<exists>r0 r1. fst (gps_init P L h) = 0 \<and>
      gnss_events (new_events h (snd (gps_init P L h))) =
        (Gnss_event_handler_set, r0) # map (\<lambda>c. (c, 0)) (gnss_config L) @ [(Gnss_start, r1)]) \<or>
   (\<exists>r0 n e. fst (gps_init P L h) = -1 \<and> n < 4 \<and> e \<noteq> 0 \<and>
      gnss_events (new_events h (snd (gps_init P L h))) =
        (Gnss_event_handler_set, r0) # map (\<lambda>c. (c, 0)) (take n (gnss_config L)) @ [(gnss_config L ! n, e)])"
proof -
  have "post (gps_init P L h) (\<lambda>(r, h').
     (\<exists>r0 r1. r = 0 \<and> gnss_events (new_events h h') =
        (Gnss_event_handler_set, r0) # map (\<lambda>c. (c, 0)) (gnss_config L) @ [(Gnss_start, r1)]) \<or>
     (\<exists>r0 n e. r = -1 \<and> n < 4 \<and> e \<noteq> 0 \<and> gnss_events (new_events h h') =
        (Gnss_event_handler_set, r0) # map (\<lambda>c. (c, 0)) (take n (gnss_config L)) @ [(gnss_config L ! n, e)]))"
    unfolding gps_init_def Let_def printf_def append_assoc
    by (intro post_intros; rule postI)
      (auto simp: gnss_config_def intro: exI [of _ 0] exI [of _ 1] exI [of _ 2] exI [of _ 3])
  then show ?thesis by (simp add: post_def split_beta)
qed

text \<open>
  C33: the handler reports a position only for a position event whose data could be read, with a
  valid fix and neither a blocked receiver nor a missed deadline, and the reported coordinates are
  those of the frame that was read.
\<close>

theorem position_report:
  "Printf ''pvt data: latitude %s longitude %s'' args \<in> set (new_events h (gnss_event_handler P L event h)) \<longleftrightarrow>
     event = EVT_PVT L \<and> gnss_ret P h Gnss_read_pvt = 0 \<and>
     (let pvt = pvt_data L (h @ [Gnss Gnss_read_pvt 0]) in
        pvt_flags pvt AND PVT_FLAG_NOT_ENOUGH_WINDOW_TIME L = 0 \<and>
        pvt_flags pvt AND PVT_FLAG_DEADLINE_MISSED L = 0 \<and>
        pvt_flags pvt AND PVT_FLAG_FIX_VALID L \<noteq> 0 \<and>
        args = [AStr (ftoa L (latitude pvt)), AStr (ftoa L (longitude pvt))])"
proof -
  define pvt where "pvt = pvt_data L (h @ [Gnss Gnss_read_pvt 0])"
  obtain evs where evs: "print_stats L pvt (h @ [Gnss Gnss_read_pvt 0]) = h @ Gnss Gnss_read_pvt 0 # evs"
    "list_all (\<lambda>e. \<not> is_position e) evs"
    using print_stats_events [of L pvt "h @ [Gnss Gnss_read_pvt 0]"] by auto
  then have "Printf ''pvt data: latitude %s longitude %s'' args \<notin> set evs"
    by (auto simp: list_all_iff is_position_def)
  with evs show ?thesis
    unfolding pvt_def [symmetric]
    by (cases "gnss_ret P h Gnss_read_pvt = 0")
      (auto simp: gnss_event_handler_def gnss_def printf_def Let_def pvt_def [symmetric])
qed

end
