(* ===== verification/Board.thy ===== *)
theory Board
  imports Platform
begin

text \<open>
  The board support code (\<^verbatim>\<open>src/src/board.c\<close>), the memory layout that \<^verbatim>\<open>src/src/main.c\<close> hands to
  the modem library, and the memory and delay wrappers of \<^verbatim>\<open>src/src/nrf_modem.c\<close>. The free-list
  allocator and the device tree code belong to the kernel: the allocator is the parameter
  \<open>fl_ops\<close>, and the contract the code relies on is the locale \<open>fl_allocator\<close>.
\<close>

section \<open>Memory layout\<close>

type_synonym region = "nat \<times> nat"

definition NRF_MODEM_OS_SHMEM_CTRL_ADDR :: nat where "NRF_MODEM_OS_SHMEM_CTRL_ADDR = 0x20010000"
definition NRF_MODEM_OS_SHMEM_TX_ADDR :: nat where "NRF_MODEM_OS_SHMEM_TX_ADDR = 0x20011000"
definition NRF_MODEM_OS_SHMEM_TX_SIZE :: nat where "NRF_MODEM_OS_SHMEM_TX_SIZE = 0x3800"
definition NRF_MODEM_OS_SHMEM_RX_ADDR :: nat where "NRF_MODEM_OS_SHMEM_RX_ADDR = 0x20018800"
definition NRF_MODEM_OS_SHMEM_RX_SIZE :: nat where "NRF_MODEM_OS_SHMEM_RX_SIZE = 0x7800"

lemmas shmem_defs = NRF_MODEM_OS_SHMEM_CTRL_ADDR_def NRF_MODEM_OS_SHMEM_TX_ADDR_def
  NRF_MODEM_OS_SHMEM_TX_SIZE_def NRF_MODEM_OS_SHMEM_RX_ADDR_def NRF_MODEM_OS_SHMEM_RX_SIZE_def

text \<open>
  The size of the control region comes from the modem library; the source asserts at compile
  time that it is at most 0x1000.
\<close>

record nrf_modem_init_params =
  ipc_irq_prio :: nat
  shmem_ctrl :: region
  shmem_tx :: region
  shmem_rx :: region

definition init_params :: "nat \<Rightarrow> nrf_modem_init_params" where
  "init_params ctrl_size = \<lparr>ipc_irq_prio = 0,
     shmem_ctrl = (NRF_MODEM_OS_SHMEM_CTRL_ADDR, ctrl_size),
     shmem_tx = (NRF_MODEM_OS_SHMEM_TX_ADDR, NRF_MODEM_OS_SHMEM_TX_SIZE),
     shmem_rx = (NRF_MODEM_OS_SHMEM_RX_ADDR, NRF_MODEM_OS_SHMEM_RX_SIZE)\<rparr>"

definition ctrl_size_assert :: "nat \<Rightarrow> bool" where
  "ctrl_size_assert ctrl_size \<longleftrightarrow> ctrl_size \<le> 0x1000"

definition disjoint :: "region \<Rightarrow> region \<Rightarrow> bool" where
  "disjoint r s \<longleftrightarrow> fst r + snd r \<le> fst s \<or> fst s + snd s \<le> fst r"

definition within :: "region \<Rightarrow> region \<Rightarrow> bool" where
  "within r s \<longleftrightarrow> fst s \<le> fst r \<and> fst r + snd r \<le> fst s + snd s"

section \<open>The allocator\<close>

record 'z fl_ops =
  mdx_fl_init :: 'z
  mdx_fl_add_region :: "nat \<Rightarrow> nat \<Rightarrow> 'z \<Rightarrow> 'z"
  mdx_fl_malloc :: "nat \<Rightarrow> 'z \<Rightarrow> nat option \<times> 'z"
  mdx_fl_free :: "nat \<Rightarrow> 'z \<Rightarrow> 'z"

text \<open>
  The contract: \<open>ok z\<close> says that a zone has only been used as it should be, \<open>blocks z\<close> are its live blocks,
  \<open>regions z\<close> the regions added to it. On such a zone a successful allocation of one byte or more lies in an added
  region and overlaps no live block, a failed one changes nothing, and freeing a live block by its
  address ends its life. Nothing is promised about freeing any other address.
\<close>

locale fl_allocator =
  fixes F :: "'z fl_ops" and ok :: "'z \<Rightarrow> bool" and regions blocks :: "'z \<Rightarrow> region set"
  assumes init: "ok (mdx_fl_init F)" "regions (mdx_fl_init F) = {}" "blocks (mdx_fl_init F) = {}"
    and add_region: "ok z \<Longrightarrow> \<forall>r \<in> regions z. disjoint (a, n) r \<Longrightarrow> ok (mdx_fl_add_region F a n z) \<and>
      regions (mdx_fl_add_region F a n z) = insert (a, n) (regions z) \<and> blocks (mdx_fl_add_region F a n z) = blocks z"
    and malloc_fails: "ok z \<Longrightarrow> mdx_fl_malloc F n z = (None, z') \<Longrightarrow> ok z' \<and> regions z' = regions z \<and> blocks z' = blocks z"
    and malloc_block: "ok z \<Longrightarrow> 0 < n \<Longrightarrow> mdx_fl_malloc F n z = (Some p, z') \<Longrightarrow> ok z' \<and> regions z' = regions z \<and>
      blocks z' = insert (p, n) (blocks z) \<and> (\<exists>r \<in> regions z. within (p, n) r) \<and> (\<forall>b \<in> blocks z. disjoint (p, n) b)"
    and free_block: "ok z \<Longrightarrow> (p, n) \<in> blocks z \<Longrightarrow> ok (mdx_fl_free F p z) \<and> regions (mdx_fl_free F p z) = regions z \<and>
      blocks (mdx_fl_free F p z) = blocks z - {(p, n)}"

section \<open>Operations\<close>

record 'z board =
  timer_sc :: bool
  mdx_fl_shm_tx_zone :: 'z

definition kernel :: "string \<Rightarrow> arg list \<Rightarrow> history \<Rightarrow> history" where
  [run_simps]: "kernel f args h = h @ [Kernel f args]"

definition udelay :: "u32 \<Rightarrow> history \<Rightarrow> history" where
  "udelay usec h = kernel ''nrf_timer_udelay'' [AInt (uint usec)] h"

definition shm_alloc :: "'z fl_ops \<Rightarrow> nat \<Rightarrow> 'z board \<Rightarrow> history \<Rightarrow> (nat option \<times> 'z board) \<times> history" where
  "shm_alloc F bytes s h =
     (let h = kernel ''critical_enter'' [] h;
          (ret, z) = mdx_fl_malloc F bytes (mdx_fl_shm_tx_zone s);
          h = kernel ''mdx_fl_malloc'' [AInt (int bytes)] h;
          h = kernel ''critical_exit'' [] h
      in ((ret, s\<lparr>mdx_fl_shm_tx_zone := z\<rparr>), h))"

definition shm_free :: "'z fl_ops \<Rightarrow> nat \<Rightarrow> 'z board \<Rightarrow> history \<Rightarrow> 'z board \<times> history" where
  "shm_free F ptr s h =
     (let h = kernel ''critical_enter'' [] h;
          z = mdx_fl_free F ptr (mdx_fl_shm_tx_zone s);
          h = kernel ''mdx_fl_free'' [AInt (int ptr)] h;
          h = kernel ''critical_exit'' [] h
      in (s\<lparr>mdx_fl_shm_tx_zone := z\<rparr>, h))"

text \<open>The heap is one region; the transmit zone is another. The device tree is at a fixed address in flash.\<close>

definition heap_region :: region where
  "heap_region = (0x20030000, 0x10000)"

definition shm_tx_region :: region where
  "shm_tx_region = (0x20014800, 0x4000)"

definition dtb_addr :: nat where
  "dtb_addr = 0xf8000"

definition board_init :: "platform \<Rightarrow> 'z fl_ops \<Rightarrow> 'z board \<Rightarrow> history \<Rightarrow> 'z board outcome \<times> history" where
  "board_init P F s h =
     (let h = kernel ''malloc_init'' [] h;
          h = kernel ''malloc_add_region'' [AInt (int (fst heap_region)), AInt (int (snd heap_region))] h;
          s = s\<lparr>mdx_fl_shm_tx_zone := mdx_fl_init F\<rparr>;
          s = s\<lparr>mdx_fl_shm_tx_zone := mdx_fl_add_region F (fst shm_tx_region) (snd shm_tx_region)
                  (mdx_fl_shm_tx_zone s)\<rparr>;
          h = kernel ''mdx_of_install_dtbp'' [AInt (int dtb_addr)] h;
          h = kernel ''mi_startup'' [] h;
          (dev, h) = mdx_device_lookup_by_name P ''nrf_uarte'' 0 h
      in if \<not> dev then panic ''uart dev not found'' [] h
      else let h = kernel ''mdx_console_register_uart'' [] h;
               (dev, h) = mdx_device_lookup_by_name P ''nrf_nvmc'' 0 h
      in if \<not> dev then panic ''nvmc dev not found'' [] h
      else let h = kernel ''nrf_nvmc_icache_control'' [AInt 1] h;
               (dev, h) = mdx_device_lookup_by_name P ''nrf_timer'' 0 h
      in if \<not> dev then panic ''timer dev not found'' [] h
      else let s = s\<lparr>timer_sc := True\<rparr>
           in (Returned s, printf ''mdepx initialized'' [] h))"

text \<open>
  The wrappers the modem library calls. The debug prints of these functions are compiled out.
  \<open>nrf_modem_os_log\<close> passes its argument list object itself to \<open>printf\<close>, so the arguments the
  caller gave never reach the output; only the format is recorded.
\<close>

definition nrf_modem_os_alloc :: "platform \<Rightarrow> nat \<Rightarrow> history \<Rightarrow> int \<times> history" where
  "nrf_modem_os_alloc P bytes h =
     (let h = kernel ''malloc'' [AInt (int bytes)] h in (kernel_ret P h ''malloc'', h))"

definition nrf_modem_os_free :: "int \<Rightarrow> history \<Rightarrow> history" where
  "nrf_modem_os_free mem h = kernel ''free'' [AInt mem] h"

definition nrf_modem_os_log :: "string \<Rightarrow> history \<Rightarrow> history" where
  "nrf_modem_os_log fmt h = printf [] [] (printf fmt [] h)"

definition nrf_modem_os_shm_tx_alloc ::
    "'z fl_ops \<Rightarrow> nat \<Rightarrow> 'z board \<Rightarrow> history \<Rightarrow> (nat option \<times> 'z board) \<times> history" where
  "nrf_modem_os_shm_tx_alloc F bytes s h = shm_alloc F bytes s h"

definition nrf_modem_os_shm_tx_free :: "'z fl_ops \<Rightarrow> nat \<Rightarrow> 'z board \<Rightarrow> history \<Rightarrow> 'z board \<times> history" where
  "nrf_modem_os_shm_tx_free F mem s h = shm_free F mem s h"

definition nrf_modem_os_busywait :: "int \<Rightarrow> history \<Rightarrow> history" where
  "nrf_modem_os_busywait usec h = udelay (word_of_int usec) h"

definition nrf_modem_os_errno_set :: "int \<Rightarrow> history \<Rightarrow> history" where
  "nrf_modem_os_errno_set errno_val h = h"

section \<open>Lemmas\<close>

datatype shm_op = Shm_alloc nat | Shm_free nat

fun shm_step :: "'z fl_ops \<Rightarrow> shm_op \<Rightarrow> 'z board \<times> history \<Rightarrow> 'z board \<times> history" where
  "shm_step F (Shm_alloc n) (s, h) =
     (case nrf_modem_os_shm_tx_alloc F n s h of ((p, s), h) \<Rightarrow> (s, h))"
| "shm_step F (Shm_free p) (s, h) = nrf_modem_os_shm_tx_free F p s h"

text \<open>
  The modem library uses the zone as the allocator wants: it asks for at least one byte, and frees only
  live blocks.
\<close>

fun shm_legal :: "'z fl_ops \<Rightarrow> ('z \<Rightarrow> region set) \<Rightarrow> shm_op list \<Rightarrow> 'z board \<times> history \<Rightarrow> bool" where
  "shm_legal F blocks [] st = True"
| "shm_legal F blocks (op # ops) st =
     ((case op of Shm_alloc n \<Rightarrow> 0 < n | Shm_free p \<Rightarrow> p \<in> fst ` blocks (mdx_fl_shm_tx_zone (fst st))) \<and>
      shm_legal F blocks ops (shm_step F op st))"

definition pairwise_disjoint :: "region set \<Rightarrow> bool" where
  "pairwise_disjoint rs \<longleftrightarrow> (\<forall>r \<in> rs. \<forall>s \<in> rs. r \<noteq> s \<longrightarrow> disjoint r s)"

lemma disjoint_sym: "disjoint r s \<Longrightarrow> disjoint s r"
  by (auto simp: disjoint_def)

lemma disjoint_within: "disjoint r s \<Longrightarrow> within b s \<Longrightarrow> disjoint r b"
  by (auto simp: disjoint_def within_def)

lemma pairwise_disjoint_insert:
  "pairwise_disjoint (insert b rs) \<longleftrightarrow> (\<forall>r \<in> rs. r \<noteq> b \<longrightarrow> disjoint b r) \<and> pairwise_disjoint rs"
  by (auto simp: pairwise_disjoint_def intro: disjoint_sym)

lemma pairwise_disjoint_Un:
  "pairwise_disjoint (A \<union> B) \<longleftrightarrow> pairwise_disjoint A \<and> pairwise_disjoint B \<and> (\<forall>a \<in> A. \<forall>b \<in> B. a \<noteq> b \<longrightarrow> disjoint a b)"
  by (auto simp: pairwise_disjoint_def intro: disjoint_sym)

context fl_allocator
begin

definition zone_inv :: "'z \<Rightarrow> bool" where
  "zone_inv z \<longleftrightarrow> ok z \<and> regions z = {shm_tx_region} \<and>
     (\<forall>b \<in> blocks z. within b shm_tx_region) \<and> pairwise_disjoint (blocks z)"

lemma shm_step_inv:
  assumes inv: "zone_inv (mdx_fl_shm_tx_zone (fst st))" and legal: "shm_legal F blocks [op] st"
  shows "zone_inv (mdx_fl_shm_tx_zone (fst (shm_step F op st)))"
proof (cases op)
  case (Shm_alloc n)
  obtain s h where st: "st = (s, h)" by (cases st)
  obtain p z' where m: "mdx_fl_malloc F n (mdx_fl_shm_tx_zone s) = (p, z')" by fastforce
  have "zone_inv z'"
  proof (cases p)
    case None
    with malloc_fails [of "mdx_fl_shm_tx_zone s" n z'] m inv st show ?thesis by (simp add: zone_inv_def)
  next
    case (Some a)
    with malloc_block [of "mdx_fl_shm_tx_zone s" n a z'] m inv legal st Shm_alloc show ?thesis
      by (simp add: zone_inv_def pairwise_disjoint_insert)
  qed
  with Shm_alloc st m show ?thesis
    by (simp add: nrf_modem_os_shm_tx_alloc_def shm_alloc_def Let_def)
next
  case (Shm_free p)
  obtain s h where st: "st = (s, h)" by (cases st)
  with legal Shm_free obtain n where "(p, n) \<in> blocks (mdx_fl_shm_tx_zone s)" by auto
  with free_block [of "mdx_fl_shm_tx_zone s" p n] Shm_free inv st show ?thesis
    by (simp add: nrf_modem_os_shm_tx_free_def shm_free_def Let_def zone_inv_def pairwise_disjoint_def)
qed

lemma shm_steps_inv:
  "shm_legal F blocks ops st \<Longrightarrow> zone_inv (mdx_fl_shm_tx_zone (fst st)) \<Longrightarrow>
   zone_inv (mdx_fl_shm_tx_zone (fst (fold (shm_step F) ops st)))"
  by (induction ops arbitrary: st) (simp_all add: shm_step_inv)

lemma board_init_zone:
  assumes "board_init P F s h = (Returned s', h')"
  shows "zone_inv (mdx_fl_shm_tx_zone s')"
proof -
  have "mdx_fl_shm_tx_zone s' = mdx_fl_add_region F (fst shm_tx_region) (snd shm_tx_region) (mdx_fl_init F)"
    using assms by (auto simp: board_init_def Let_def panic_def split: prod.splits if_splits)
  with init add_region [of "mdx_fl_init F" "fst shm_tx_region" "snd shm_tx_region"] show ?thesis
    by (simp add: zone_inv_def pairwise_disjoint_def)
qed

lemma live_blocks:
  assumes "board_init P F s h = (Returned s', h')" and "shm_legal F blocks ops (s', k)"
  defines "live \<equiv> blocks (mdx_fl_shm_tx_zone (fst (fold (shm_step F) ops (s', k))))"
  shows "pairwise_disjoint live" and "b \<in> live \<Longrightarrow> within b shm_tx_region"
  using shm_steps_inv [OF assms(2)] board_init_zone [OF assms(1)] by (simp_all add: zone_inv_def live_def)

end

text \<open>
  The regions a history shows being handed to a function, as pairs of address and size; \<open>board_init\<close> hands
  exactly the heap region to the kernel's allocator.
\<close>

fun region_args :: "arg list \<Rightarrow> region list" where
  "region_args (AInt base # AInt len # args) = (nat base, nat len) # region_args args"
| "region_args _ = []"

definition handed :: "string \<Rightarrow> event \<Rightarrow> region list" where
  "handed f e = (case e of Kernel g args \<Rightarrow> if g = f then region_args args else [] | _ \<Rightarrow> [])"

lemma board_init_heap:
  assumes "board_init P F s h = (Returned s', h')"
  shows "grows (handed ''malloc_add_region'') h h' [heap_region]"
proof -
  have "post (board_init P F s h) (\<lambda>(r, h'). \<forall>s'. r = Returned s' \<longrightarrow> grows (handed ''malloc_add_region'') h h' [heap_region])"
    unfolding board_init_def Let_def printf_def kernel_def panic_def append_assoc
    by (intro post_intros; rule postI) (simp_all add: grows_events handed_def heap_region_def)
  with assms show ?thesis by (auto simp: post_def)
qed

text \<open>The memory that the linker script sets aside for the modem and for the heap.\<close>

definition sram1 :: region where "sram1 = (0x20010000, 0x10000)"
definition sram3 :: region where "sram3 = (0x20030000, 0x10000)"

lemmas region_defs = init_params_def shmem_defs shm_tx_region_def heap_region_def sram1_def sram3_def

section \<open>Properties\<close>

text \<open>
  Under the compile-time assertion on the size of the control region, the control, transmit
  and receive regions given to the modem library and the transmit zone of the allocator are
  pairwise disjoint and lie in the 64 kB that the linker script reserves for the modem; the
  transmit region, the zone and the receive region follow each other without a gap, and the heap
  is apart, in its own memory.
\<close>

lemma memory_layout:
  assumes "ctrl_size_assert ctrl_size"
  shows "let p = init_params ctrl_size; rs = [shmem_ctrl p, shmem_tx p, shm_tx_region, shmem_rx p] in
    (\<forall>r \<in> set rs. within r sram1 \<and> disjoint r heap_region) \<and> sorted_wrt disjoint rs \<and>
    within heap_region sram3 \<and>
    fst (shmem_tx p) + snd (shmem_tx p) = fst shm_tx_region \<and>
    fst shm_tx_region + snd shm_tx_region = fst (shmem_rx p) \<and>
    fst (shmem_rx p) + snd (shmem_rx p) = fst sram1 + snd sram1"
  using assms by (simp add: region_defs ctrl_size_assert_def within_def disjoint_def Let_def)

text \<open>
  An allocator that satisfies the contract: it keeps the regions and the live blocks, and serves
  a request after the end of the last block when the first region has room there.
\<close>

definition bump_end :: "region list \<times> region list \<Rightarrow> nat" where
  "bump_end z = Max (insert (fst (hd (fst z))) ((\<lambda>b. fst b + snd b) ` set (snd z)))"

definition bump :: "(region list \<times> region list) fl_ops" where
  "bump = \<lparr>mdx_fl_init = ([], []),
     mdx_fl_add_region = (\<lambda>a n z. ((a, n) # fst z, snd z)),
     mdx_fl_malloc = (\<lambda>n z.
       if fst z \<noteq> [] \<and> bump_end z + n \<le> fst (hd (fst z)) + snd (hd (fst z))
       then (Some (bump_end z), (fst z, (bump_end z, n) # snd z)) else (None, z)),
     mdx_fl_free = (\<lambda>p z. (fst z, filter (\<lambda>b. fst b \<noteq> p) (snd z)))\<rparr>"

lemma bump_end_ge:
  "fst (hd (fst z)) \<le> bump_end z" "b \<in> set (snd z) \<Longrightarrow> fst b + snd b \<le> bump_end z"
  by (auto simp: bump_end_def intro: Max_ge)

definition bump_ok :: "region list \<times> region list \<Rightarrow> bool" where
  "bump_ok z \<longleftrightarrow> (\<forall>b \<in> set (snd z). 0 < snd b) \<and> inj_on fst (set (snd z))"

lemma bump_simps:
  "mdx_fl_init bump = ([], [])" "mdx_fl_add_region bump a n z = ((a, n) # fst z, snd z)"
  "mdx_fl_malloc bump n z = (if fst z \<noteq> [] \<and> bump_end z + n \<le> fst (hd (fst z)) + snd (hd (fst z))
     then (Some (bump_end z), (fst z, (bump_end z, n) # snd z)) else (None, z))"
  "mdx_fl_free bump p z = (fst z, filter (\<lambda>b. fst b \<noteq> p) (snd z))"
  by (simp_all add: bump_def)

lemma bump_malloc:
  assumes "bump_ok z" "0 < n" "mdx_fl_malloc bump n z = (Some p, z')"
  shows "bump_ok z' \<and> set (fst z') = set (fst z) \<and> set (snd z') = insert (p, n) (set (snd z)) \<and>
    (\<exists>r \<in> set (fst z). within (p, n) r) \<and> (\<forall>b \<in> set (snd z). disjoint (p, n) b)"
proof -
  have z: "fst z \<noteq> []" "p = bump_end z" "z' = (fst z, (p, n) # snd z)" "p + n \<le> fst (hd (fst z)) + snd (hd (fst z))"
    using assms(3) by (auto simp: bump_simps split: if_splits)
  have b: "fst b + snd b \<le> p \<and> 0 < snd b" if "b \<in> set (snd z)" for b
    using bump_end_ge(2) [OF that] assms(1) that by (simp add: bump_ok_def z(2))
  then have "p \<notin> fst ` set (snd z)" by fastforce
  with assms(1,2) z(3) have "bump_ok z'" by (auto simp: bump_ok_def)
  moreover have "within (p, n) (hd (fst z))" using z(2,4) bump_end_ge(1) [of z] by (simp add: within_def)
  moreover have "disjoint (p, n) b" if "b \<in> set (snd z)" for b using b [OF that] by (simp add: disjoint_def)
  ultimately show ?thesis using z(1,3) hd_in_set by auto
qed

lemma bump_free:
  assumes "bump_ok z" "(p, n) \<in> set (snd z)"
  shows "bump_ok (mdx_fl_free bump p z) \<and> set (fst (mdx_fl_free bump p z)) = set (fst z) \<and>
    set (snd (mdx_fl_free bump p z)) = set (snd z) - {(p, n)}"
proof -
  from assms(1) have inj: "inj_on fst (set (snd z))" by (simp add: bump_ok_def)
  have "fst b \<noteq> p \<longleftrightarrow> b \<noteq> (p, n)" if "b \<in> set (snd z)" for b
    using inj_onD [OF inj _ that assms(2)] by auto
  then have "{b \<in> set (snd z). fst b \<noteq> p} = set (snd z) - {(p, n)}" by blast
  moreover have "inj_on fst (set (snd z) - {(p, n)})" by (rule inj_on_diff [OF inj])
  ultimately show ?thesis using assms(1) by (simp add: bump_simps bump_ok_def)
qed

lemma bump_malloc_none: "mdx_fl_malloc bump n z = (None, z') \<Longrightarrow> z' = z"
  by (simp add: bump_simps split: if_splits)

interpretation bump_zone: fl_allocator bump bump_ok "\<lambda>z. set (fst z)" "\<lambda>z. set (snd z)"
proof (unfold_locales, goal_cases)
  case (5 z n z')
  then show ?case using bump_malloc_none by blast
next
  case 6
  then show ?case by (rule bump_malloc)
next
  case 7
  then show ?case by (rule bump_free)
qed (simp_all add: bump_simps bump_ok_def)

text \<open>
  \<open>board_init\<close> returns exactly when the console, flash controller and timer devices are all
  found, panics otherwise, and when it returns the timer that \<open>udelay\<close> uses has been set.
\<close>

lemma board_init_devices:
  "(\<exists>s'. fst (board_init P F s h) = Returned s' \<and> timer_sc s') \<and>
     (\<lambda>name. Lookup name 0 True) ` {''nrf_uarte'', ''nrf_nvmc'', ''nrf_timer''} \<subseteq> set (new_events h (snd (board_init P F s h)))
   \<or> fst (board_init P F s h) = Panicked \<and>
     (\<exists>name \<in> {''nrf_uarte'', ''nrf_nvmc'', ''nrf_timer''}. Lookup name 0 False \<in> set (new_events h (snd (board_init P F s h))))"
proof -
  have "post (board_init P F s h) (\<lambda>(r, h'). (\<exists>s'. r = Returned s' \<and> timer_sc s') \<and>
     (\<lambda>name. Lookup name 0 True) ` {''nrf_uarte'', ''nrf_nvmc'', ''nrf_timer''} \<subseteq> set (new_events h h')
   \<or> r = Panicked \<and>
     (\<exists>name \<in> {''nrf_uarte'', ''nrf_nvmc'', ''nrf_timer''}. Lookup name 0 False \<in> set (new_events h h')))"
    unfolding board_init_def Let_def printf_def kernel_def panic_def append_assoc
    by (intro post_intros; rule postI) (simp_all add: new_events_def)
  then show ?thesis by (simp add: post_def split_beta)
qed

end
