(* ===== verification/Wifi.thy ===== *)
theory Wifi
  imports Platform CStrings
begin

text \<open>
  The operating-system shim of the Wi-Fi library (\<^verbatim>\<open>src/src/wifi/nrf_wifi.c\<close>) and the DECT test
  (\<^verbatim>\<open>src/src/dect.c\<close>). Memory is a partial map from addresses to bytes; the three memory operations are
  the standard functions of the C library, which are undefined on addresses that hold nothing.
\<close>

section \<open>Memory\<close>

type_synonym memory = "nat \<rightharpoonup> u8"

abbreviation null_pointer :: nat where
  "null_pointer \<equiv> 0"

datatype osal_error = Null_call string | Ill_typed | Bad_access | Overlap

definition accessible :: "memory \<Rightarrow> nat \<Rightarrow> nat \<Rightarrow> bool" where
  "accessible m a n = list_all (\<lambda>i. m (a + i) \<noteq> None) [0..<n]"

text \<open>Byte by byte, in ascending order, as the C library may do it.\<close>

fun copy_bytes :: "nat \<Rightarrow> nat \<Rightarrow> nat \<Rightarrow> memory \<Rightarrow> memory" where
  "copy_bytes dest src 0 m = m"
| "copy_bytes dest src (Suc n) m = copy_bytes (dest + 1) (src + 1) n (m(dest := m src))"

fun fill_bytes :: "nat \<Rightarrow> int \<Rightarrow> nat \<Rightarrow> memory \<Rightarrow> memory" where
  "fill_bytes start val 0 m = m"
| "fill_bytes start val (Suc n) m = fill_bytes (start + 1) val n (m(start \<mapsto> word_of_int val))"

fun compare_bytes :: "nat \<Rightarrow> nat \<Rightarrow> nat \<Rightarrow> memory \<Rightarrow> int" where
  "compare_bytes a b 0 m = 0"
| "compare_bytes a b (Suc n) m =
     (if the (m a) = the (m b) then compare_bytes (a + 1) (b + 1) n m else uint (the (m a)) - uint (the (m b)))"

definition memcpy :: "nat \<Rightarrow> nat \<Rightarrow> nat \<Rightarrow> memory \<Rightarrow> osal_error + memory" where
  "memcpy dest src n m =
     (if \<not> (accessible m dest n \<and> accessible m src n) then Inl Bad_access
      else if n \<noteq> 0 \<and> src < dest + n \<and> dest < src + n then Inl Overlap
      else Inr (copy_bytes dest src n m))"

definition memset :: "nat \<Rightarrow> int \<Rightarrow> nat \<Rightarrow> memory \<Rightarrow> osal_error + memory" where
  "memset start val n m = (if \<not> accessible m start n then Inl Bad_access else Inr (fill_bytes start val n m))"

definition memcmp :: "nat \<Rightarrow> nat \<Rightarrow> nat \<Rightarrow> memory \<Rightarrow> osal_error + int" where
  "memcmp a b n m =
     (if \<not> (accessible m a n \<and> accessible m b n) then Inl Bad_access else Inr (compare_bytes a b n m))"

section \<open>The shim\<close>

definition mdx_shim_mem_alloc :: "nat \<Rightarrow> history \<Rightarrow> nat \<times> history" where
  "mdx_shim_mem_alloc n h = (null_pointer, printf ''mdx_shim_mem_alloc'' [] h)"

definition mdx_shim_mem_zalloc :: "nat \<Rightarrow> history \<Rightarrow> nat \<times> history" where
  "mdx_shim_mem_zalloc n h = (null_pointer, printf ''mdx_shim_mem_zalloc'' [] h)"

definition mdx_shim_mem_free :: "nat \<Rightarrow> history \<Rightarrow> history" where
  "mdx_shim_mem_free buf h = printf ''mdx_shim_mem_free'' [] h"

definition mdx_shim_mem_cpy :: "nat \<Rightarrow> nat \<Rightarrow> nat \<Rightarrow> memory \<Rightarrow> osal_error + nat \<times> memory" where
  "mdx_shim_mem_cpy dest src count m = bindE (memcpy dest src count m) (\<lambda>m. Inr (dest, m))"

definition mdx_shim_mem_set :: "nat \<Rightarrow> int \<Rightarrow> nat \<Rightarrow> memory \<Rightarrow> osal_error + nat \<times> memory" where
  "mdx_shim_mem_set start val n m = bindE (memset start val n m) (\<lambda>m. Inr (start, m))"

definition mdx_shim_mem_cmp :: "nat \<Rightarrow> nat \<Rightarrow> nat \<Rightarrow> memory \<Rightarrow> osal_error + int" where
  "mdx_shim_mem_cmp addr1 addr2 n m = memcmp addr1 addr2 n m"

definition mdx_shim_qspi_read_reg32 :: "nat \<Rightarrow> u32 \<Rightarrow> history \<Rightarrow> u32 \<times> history" where
  "mdx_shim_qspi_read_reg32 priv addr h = (0, printf ''mdx_shim_qspi_read_reg32'' [] h)"

definition mdx_shim_qspi_write_reg32 :: "nat \<Rightarrow> u32 \<Rightarrow> u32 \<Rightarrow> history \<Rightarrow> history" where
  "mdx_shim_qspi_write_reg32 priv addr val h = printf ''mdx_shim_qspi_write_reg32'' [] h"

definition mdx_shim_qspi_cpy_from :: "nat \<Rightarrow> nat \<Rightarrow> u32 \<Rightarrow> nat \<Rightarrow> history \<Rightarrow> history" where
  "mdx_shim_qspi_cpy_from priv dest addr count h = printf ''mdx_shim_qspi_cpy_from'' [] h"

definition mdx_shim_qspi_cpy_to :: "nat \<Rightarrow> u32 \<Rightarrow> nat \<Rightarrow> nat \<Rightarrow> history \<Rightarrow> history" where
  "mdx_shim_qspi_cpy_to priv addr src count h = printf ''mdx_shim_qspi_cpy_to'' [] h"

text \<open>The functions that the file defines, by their names; they have different types.\<close>

datatype shim =
    Alloc_fn "nat \<Rightarrow> history \<Rightarrow> nat \<times> history"
  | Free_fn "nat \<Rightarrow> history \<Rightarrow> history"
  | Cpy_fn "nat \<Rightarrow> nat \<Rightarrow> nat \<Rightarrow> memory \<Rightarrow> osal_error + nat \<times> memory"
  | Set_fn "nat \<Rightarrow> int \<Rightarrow> nat \<Rightarrow> memory \<Rightarrow> osal_error + nat \<times> memory"
  | Cmp_fn "nat \<Rightarrow> nat \<Rightarrow> nat \<Rightarrow> memory \<Rightarrow> osal_error + int"
  | Read_fn "nat \<Rightarrow> u32 \<Rightarrow> history \<Rightarrow> u32 \<times> history"
  | Write_fn "nat \<Rightarrow> u32 \<Rightarrow> u32 \<Rightarrow> history \<Rightarrow> history"
  | Copy_from_fn "nat \<Rightarrow> nat \<Rightarrow> u32 \<Rightarrow> nat \<Rightarrow> history \<Rightarrow> history"
  | Copy_to_fn "nat \<Rightarrow> u32 \<Rightarrow> nat \<Rightarrow> nat \<Rightarrow> history \<Rightarrow> history"

definition shim_functions :: "(string \<times> shim) list" where
  "shim_functions =
    [(''mdx_shim_mem_alloc'', Alloc_fn mdx_shim_mem_alloc), (''mdx_shim_mem_zalloc'', Alloc_fn mdx_shim_mem_zalloc),
     (''mdx_shim_mem_free'', Free_fn mdx_shim_mem_free), (''mdx_shim_mem_cpy'', Cpy_fn mdx_shim_mem_cpy),
     (''mdx_shim_mem_set'', Set_fn mdx_shim_mem_set), (''mdx_shim_mem_cmp'', Cmp_fn mdx_shim_mem_cmp),
     (''mdx_shim_qspi_read_reg32'', Read_fn mdx_shim_qspi_read_reg32),
     (''mdx_shim_qspi_write_reg32'', Write_fn mdx_shim_qspi_write_reg32),
     (''mdx_shim_qspi_cpy_from'', Copy_from_fn mdx_shim_qspi_cpy_from),
     (''mdx_shim_qspi_cpy_to'', Copy_to_fn mdx_shim_qspi_cpy_to)]"

text \<open>
  The operation table: the fields its initialiser names, and the names of the functions they get. The flags
  are the two conditions of the preprocessor, \<open>notyet\<close> and, inside it, \<open>CONFIG_NRF_WIFI_LOW_POWER\<close>; the
  build defines neither. A field the initialiser does not name is \<open>NULL\<close>.
\<close>

definition nrf_wifi_os_mdx_ops :: "bool \<Rightarrow> bool \<Rightarrow> (string \<times> string) list" where
  "nrf_wifi_os_mdx_ops notyet low_power =
    [(''mem_alloc'', ''mdx_shim_mem_alloc''), (''mem_zalloc'', ''mdx_shim_mem_zalloc''),
     (''mem_free'', ''mdx_shim_mem_free''), (''mem_cpy'', ''mdx_shim_mem_cpy''),
     (''mem_set'', ''mdx_shim_mem_set''), (''mem_cmp'', ''mdx_shim_mem_cmp''),
     (''qspi_read_reg32'', ''mdx_shim_qspi_read_reg32''),
     (''qspi_write_reg32'', ''mdx_shim_qspi_write_reg32''),
     (''qspi_cpy_from'', ''mdx_shim_qspi_cpy_from''),
     (''qspi_cpy_to'', ''mdx_shim_qspi_cpy_to'')] @
    (if notyet then
      [(''spinlock_alloc'', ''mdx_shim_spinlock_alloc''),
       (''spinlock_free'', ''mdx_shim_spinlock_free''),
       (''spinlock_init'', ''mdx_shim_spinlock_init''),
       (''spinlock_take'', ''mdx_shim_spinlock_take''),
       (''spinlock_rel'', ''mdx_shim_spinlock_rel''),
       (''spinlock_irq_take'', ''mdx_shim_spinlock_irq_take''),
       (''spinlock_irq_rel'', ''mdx_shim_spinlock_irq_rel''),
       (''log_dbg'', ''mdx_shim_pr_dbg''), (''log_info'', ''mdx_shim_pr_info''),
       (''log_err'', ''mdx_shim_pr_err''),
       (''llist_node_alloc'', ''mdx_shim_llist_node_alloc''),
       (''llist_node_free'', ''mdx_shim_llist_node_free''),
       (''llist_node_data_get'', ''mdx_shim_llist_node_data_get''),
       (''llist_node_data_set'', ''mdx_shim_llist_node_data_set''),
       (''llist_alloc'', ''mdx_shim_llist_alloc''),
       (''llist_free'', ''mdx_shim_llist_free''),
       (''llist_init'', ''mdx_shim_llist_init''),
       (''llist_add_node_tail'', ''mdx_shim_llist_add_node_tail''),
       (''llist_add_node_head'', ''mdx_shim_llist_add_node_head''),
       (''llist_get_node_head'', ''mdx_shim_llist_get_node_head''),
       (''llist_get_node_nxt'', ''mdx_shim_llist_get_node_nxt''),
       (''llist_del_node'', ''mdx_shim_llist_del_node''),
       (''llist_len'', ''mdx_shim_llist_len''),
       (''nbuf_alloc'', ''mdx_shim_nbuf_alloc''),
       (''nbuf_free'', ''mdx_shim_nbuf_free''),
       (''nbuf_headroom_res'', ''mdx_shim_nbuf_headroom_res''),
       (''nbuf_headroom_get'', ''mdx_shim_nbuf_headroom_get''),
       (''nbuf_data_size'', ''mdx_shim_nbuf_data_size''),
       (''nbuf_data_get'', ''mdx_shim_nbuf_data_get''),
       (''nbuf_data_put'', ''mdx_shim_nbuf_data_put''),
       (''nbuf_data_push'', ''mdx_shim_nbuf_data_push''),
       (''nbuf_data_pull'', ''mdx_shim_nbuf_data_pull''),
       (''nbuf_get_priority'', ''mdx_shim_nbuf_get_priority''),
       (''nbuf_get_chksum_done'', ''mdx_shim_nbuf_get_chksum_done''),
       (''nbuf_set_chksum_done'', ''mdx_shim_nbuf_set_chksum_done''),
       (''tasklet_alloc'', ''mdx_shim_work_alloc''),
       (''tasklet_free'', ''mdx_shim_work_free''),
       (''tasklet_init'', ''mdx_shim_work_init''),
       (''tasklet_schedule'', ''mdx_shim_work_schedule''),
       (''tasklet_kill'', ''mdx_shim_work_kill''), (''sleep_ms'', ''k_msleep''),
       (''delay_us'', ''k_usleep''),
       (''time_get_curr_us'', ''mdx_shim_time_get_curr_us''),
       (''time_elapsed_us'', ''mdx_shim_time_elapsed_us''),
       (''bus_qspi_init'', ''mdx_shim_bus_qspi_init''),
       (''bus_qspi_deinit'', ''mdx_shim_bus_qspi_deinit''),
       (''bus_qspi_dev_add'', ''mdx_shim_bus_qspi_dev_add''),
       (''bus_qspi_dev_rem'', ''mdx_shim_bus_qspi_dev_rem''),
       (''bus_qspi_dev_init'', ''mdx_shim_bus_qspi_dev_init''),
       (''bus_qspi_dev_deinit'', ''mdx_shim_bus_qspi_dev_deinit''),
       (''bus_qspi_dev_intr_reg'', ''mdx_shim_bus_qspi_intr_reg''),
       (''bus_qspi_dev_intr_unreg'', ''mdx_shim_bus_qspi_intr_unreg''),
       (''bus_qspi_dev_host_map_get'', ''mdx_shim_bus_qspi_dev_host_map_get'')] @
      (if low_power then
        [(''timer_alloc'', ''mdx_shim_timer_alloc''),
         (''timer_init'', ''mdx_shim_timer_init''),
         (''timer_free'', ''mdx_shim_timer_free''),
         (''timer_schedule'', ''mdx_shim_timer_schedule''),
         (''timer_kill'', ''mdx_shim_timer_kill''),
         (''bus_qspi_ps_sleep'', ''mdx_shim_bus_qspi_ps_sleep''),
         (''bus_qspi_ps_wake'', ''mdx_shim_bus_qspi_ps_wake''),
         (''bus_qspi_ps_status'', ''mdx_shim_bus_qspi_ps_status'')]
       else []) @
      [(''assert'', ''mdx_shim_assert''), (''strlen'', ''mdx_shim_strlen'')]
     else [])"

definition slot :: "string \<rightharpoonup> shim" where
  "slot f = (case map_of (nrf_wifi_os_mdx_ops False False) f of None \<Rightarrow> None | Some name \<Rightarrow> map_of shim_functions name)"

section \<open>Calls through the table\<close>

text \<open>
  The library's calls: those with the arguments of the ten fields, and a call through any other
  field, of which only the name matters. The state is the memory and the history.
\<close>

datatype osal_call =
    Mem_alloc nat
  | Mem_zalloc nat
  | Mem_free nat
  | Mem_cpy nat nat nat
  | Mem_set nat int nat
  | Mem_cmp nat nat nat
  | Qspi_read_reg32 nat u32
  | Qspi_write_reg32 nat u32 u32
  | Qspi_cpy_from nat nat u32 nat
  | Qspi_cpy_to nat u32 nat nat
  | Field string

fun field :: "osal_call \<Rightarrow> string" where
  "field (Mem_alloc n) = ''mem_alloc''"
| "field (Mem_zalloc n) = ''mem_zalloc''"
| "field (Mem_free p) = ''mem_free''"
| "field (Mem_cpy d s n) = ''mem_cpy''"
| "field (Mem_set d v n) = ''mem_set''"
| "field (Mem_cmp a b n) = ''mem_cmp''"
| "field (Qspi_read_reg32 p a) = ''qspi_read_reg32''"
| "field (Qspi_write_reg32 p a v) = ''qspi_write_reg32''"
| "field (Qspi_cpy_from p d a n) = ''qspi_cpy_from''"
| "field (Qspi_cpy_to p a s n) = ''qspi_cpy_to''"
| "field (Field f) = f"

datatype osal_result = Pointer nat | Value int | Nothing

type_synonym osal_state = "memory \<times> history"

text \<open>Calling a function with arguments of another type is not a program of C.\<close>

definition apply_shim :: "shim \<Rightarrow> osal_call \<Rightarrow> osal_state \<Rightarrow> osal_error + osal_result \<times> osal_state" where
  "apply_shim g c s = (case s of (m, h) \<Rightarrow>
     (case g of
        Alloc_fn f \<Rightarrow>
          (case c of Mem_alloc n \<Rightarrow> (let (p, h) = f n h in Inr (Pointer p, m, h))
           | Mem_zalloc n \<Rightarrow> (let (p, h) = f n h in Inr (Pointer p, m, h)) | _ \<Rightarrow> Inl Ill_typed)
      | Free_fn f \<Rightarrow> (case c of Mem_free p \<Rightarrow> Inr (Nothing, m, f p h) | _ \<Rightarrow> Inl Ill_typed)
      | Cpy_fn f \<Rightarrow>
          (case c of Mem_cpy d s n \<Rightarrow> bindE (f d s n m) (\<lambda>(p, m). Inr (Pointer p, m, h)) | _ \<Rightarrow> Inl Ill_typed)
      | Set_fn f \<Rightarrow>
          (case c of Mem_set d v n \<Rightarrow> bindE (f d v n m) (\<lambda>(p, m). Inr (Pointer p, m, h)) | _ \<Rightarrow> Inl Ill_typed)
      | Cmp_fn f \<Rightarrow> (case c of Mem_cmp a b n \<Rightarrow> bindE (f a b n m) (\<lambda>v. Inr (Value v, m, h)) | _ \<Rightarrow> Inl Ill_typed)
      | Read_fn f \<Rightarrow>
          (case c of Qspi_read_reg32 p a \<Rightarrow> (let (v, h) = f p a h in Inr (Value (uint v), m, h)) | _ \<Rightarrow> Inl Ill_typed)
      | Write_fn f \<Rightarrow> (case c of Qspi_write_reg32 p a v \<Rightarrow> Inr (Nothing, m, f p a v h) | _ \<Rightarrow> Inl Ill_typed)
      | Copy_from_fn f \<Rightarrow> (case c of Qspi_cpy_from p d a n \<Rightarrow> Inr (Nothing, m, f p d a n h) | _ \<Rightarrow> Inl Ill_typed)
      | Copy_to_fn f \<Rightarrow> (case c of Qspi_cpy_to p a s n \<Rightarrow> Inr (Nothing, m, f p a s n h) | _ \<Rightarrow> Inl Ill_typed)))"

definition osal :: "osal_call \<Rightarrow> osal_state \<Rightarrow> osal_error + osal_result \<times> osal_state" where
  "osal c s = (case slot (field c) of None \<Rightarrow> Inl (Null_call (field c)) | Some g \<Rightarrow> apply_shim g c s)"


section \<open>Initialisation\<close>

definition mdx_nrf_wifi_init :: "platform \<Rightarrow> history \<Rightarrow> history" where
  "mdx_nrf_wifi_init P h =
     (let h = h @ [Kernel ''nrf_wifi_osal_init'' []];
          h = h @ [Kernel ''nrf_wifi_sys_fmac_init'' []];
          priv = kernel_ret P h ''nrf_wifi_sys_fmac_init''
      in printf ''priv %p'' [AInt priv] h)"

section \<open>DECT\<close>

definition dect_handler :: "int \<Rightarrow> history \<Rightarrow> history" where
  "dect_handler event h = printf ''%p'' [AInt event] h"

definition dect_main :: "platform \<Rightarrow> history \<Rightarrow> int \<times> history" where
  "dect_main P h =
     (let h = h @ [Kernel ''nrf_modem_dect_phy_event_handler_set'' []];
          h = h @ [Kernel ''nrf_modem_dect_phy_init'' []];
          error = kernel_ret P h ''nrf_modem_dect_phy_init''
      in (0, printf ''DECT PHY init return %d'' [AInt error] h))"

section \<open>Memory operations\<close>

lemma accessible_iff: "accessible m a n \<longleftrightarrow> {a..<a + n} \<subseteq> dom m"
proof -
  have "accessible m a n \<longleftrightarrow> (\<forall>i<n. a + i \<in> dom m)" by (auto simp: accessible_def list_all_iff domIff)
  also have "\<dots> \<longleftrightarrow> (\<forall>b. a \<le> b \<and> b < a + n \<longrightarrow> b \<in> dom m)"
    by (metis add_less_cancel_left le_add1 le_iff_add)
  also have "\<dots> \<longleftrightarrow> {a..<a + n} \<subseteq> dom m" by (simp add: subset_iff)
  finally show ?thesis .
qed

lemma copy_bytes_outside: "a < dest \<or> dest + n \<le> a \<Longrightarrow> copy_bytes dest src n m a = m a"
  by (induction dest src n m rule: copy_bytes.induct) auto

lemma copy_bytes_inside:
  "dest + n \<le> src \<or> src + n \<le> dest \<Longrightarrow> i < n \<Longrightarrow> copy_bytes dest src n m (dest + i) = m (src + i)"
proof (induction dest src n m arbitrary: i rule: copy_bytes.induct)
  case (2 dest src n m)
  show ?case
  proof (cases i)
    case 0
    then show ?thesis by (simp add: copy_bytes_outside)
  next
    case (Suc j)
    with 2 have "copy_bytes (dest + 1) (src + 1) n (m(dest := m src)) (dest + 1 + j) = (m(dest := m src)) (src + 1 + j)"
      by (intro "2.IH") auto
    with Suc 2 show ?thesis by auto
  qed
qed simp

lemma fill_bytes_at:
  "fill_bytes start val n m a = (if start \<le> a \<and> a < start + n then Some (word_of_int val) else m a)"
proof (induction n arbitrary: start m)
  case (Suc n)
  show ?case by (simp only: fill_bytes.simps Suc.IH) auto
qed auto

lemma compare_bytes_zero:
  "compare_bytes a b n m = 0 \<longleftrightarrow> (\<forall>i<n. the (m (a + i)) = the (m (b + i)))"
proof (induction a b n m rule: compare_bytes.induct)
  case (2 a b n m)
  have "(\<forall>i<Suc n. the (m (a + i)) = the (m (b + i))) \<longleftrightarrow>
      the (m a) = the (m b) \<and> (\<forall>i<n. the (m (a + 1 + i)) = the (m (b + 1 + i)))"
    by (auto simp: All_less_Suc2)
  with 2 show ?case by (auto simp: word_uint_eq_iff)
qed simp

section \<open>What the library can do\<close>

text \<open>
  The calls that are defined when the addresses \<open>D\<close> hold something, what a call does to the memory, and
  its possible results.
\<close>

fun allowed :: "nat set \<Rightarrow> osal_call \<Rightarrow> bool" where
  "allowed D (Mem_cpy d s n) \<longleftrightarrow> {d..<d + n} \<subseteq> D \<and> {s..<s + n} \<subseteq> D \<and> {d..<d + n} \<inter> {s..<s + n} = {}"
| "allowed D (Mem_set d v n) \<longleftrightarrow> {d..<d + n} \<subseteq> D"
| "allowed D (Mem_cmp a b n) \<longleftrightarrow> {a..<a + n} \<subseteq> D \<and> {b..<b + n} \<subseteq> D"
| "allowed D (Field f) \<longleftrightarrow> False"
| "allowed D c \<longleftrightarrow> True"

fun effect :: "osal_call \<Rightarrow> memory \<Rightarrow> memory" where
  "effect (Mem_cpy d s n) m = (\<lambda>a. if a \<in> {d..<d + n} then m (s + (a - d)) else m a)"
| "effect (Mem_set d v n) m = (\<lambda>a. if a \<in> {d..<d + n} then Some (word_of_int v) else m a)"
| "effect c m = m"

fun answers :: "osal_call \<Rightarrow> memory \<Rightarrow> osal_result \<Rightarrow> bool" where
  "answers (Mem_alloc n) m r \<longleftrightarrow> r = Pointer null_pointer"
| "answers (Mem_zalloc n) m r \<longleftrightarrow> r = Pointer null_pointer"
| "answers (Mem_cpy d s n) m r \<longleftrightarrow> r = Pointer d"
| "answers (Mem_set d v n) m r \<longleftrightarrow> r = Pointer d"
| "answers (Mem_cmp a b n) m r \<longleftrightarrow>
     (case r of Value v \<Rightarrow> v = 0 \<longleftrightarrow> (\<forall>i<n. m (a + i) = m (b + i)) | _ \<Rightarrow> False)"
| "answers (Qspi_read_reg32 p a) m r \<longleftrightarrow> r = Value 0"
| "answers c m r \<longleftrightarrow> r = Nothing"

lemma memcpy_effect:
  "memcpy d s n m =
     (if \<not> ({d..<d + n} \<subseteq> dom m \<and> {s..<s + n} \<subseteq> dom m) then Inl Bad_access
      else if {d..<d + n} \<inter> {s..<s + n} \<noteq> {} then Inl Overlap else Inr (effect (Mem_cpy d s n) m))"
proof -
  have overlap: "n \<noteq> 0 \<and> s < d + n \<and> d < s + n \<longleftrightarrow> {d..<d + n} \<inter> {s..<s + n} \<noteq> {}" by auto
  have "copy_bytes d s n m = effect (Mem_cpy d s n) m" if "{d..<d + n} \<inter> {s..<s + n} = {}"
  proof
    fix a
    have apart: "d + n \<le> s \<or> s + n \<le> d \<or> n = 0" using that overlap by auto
    show "copy_bytes d s n m a = effect (Mem_cpy d s n) m a"
    proof (cases "a \<in> {d..<d + n}")
      case True
      then have "a - d < n" "a = d + (a - d)" by auto
      with apart copy_bytes_inside [of d n s "a - d" m] True show ?thesis by auto
    qed (auto intro: copy_bytes_outside)
  qed
  with overlap show ?thesis by (simp add: memcpy_def accessible_iff)
qed

lemma memset_effect:
  "memset d v n m = (if {d..<d + n} \<subseteq> dom m then Inr (effect (Mem_set d v n) m) else Inl Bad_access)"
  by (auto simp: memset_def accessible_iff fill_bytes_at)

lemma memcmp_zero:
  assumes "{a..<a + n} \<subseteq> dom m" and "{b..<b + n} \<subseteq> dom m"
  shows "compare_bytes a b n m = 0 \<longleftrightarrow> (\<forall>i<n. m (a + i) = m (b + i))"
proof -
  have "m (a + i) \<noteq> None" "m (b + i) \<noteq> None" if "i < n" for i
    using that assms by (force simp: subset_iff domIff)+
  then have "the (m (a + i)) = the (m (b + i)) \<longleftrightarrow> m (a + i) = m (b + i)" if "i < n" for i
    using that by (metis option.expand)
  then show ?thesis by (simp add: compare_bytes_zero)
qed

lemmas shim_defs = mdx_shim_mem_alloc_def mdx_shim_mem_zalloc_def mdx_shim_mem_free_def mdx_shim_mem_cpy_def
  mdx_shim_mem_set_def mdx_shim_mem_cmp_def mdx_shim_qspi_read_reg32_def mdx_shim_qspi_write_reg32_def
  mdx_shim_qspi_cpy_from_def mdx_shim_qspi_cpy_to_def

text \<open>The fields of the table that the build makes.\<close>

lemma slots:
  "slot ''mem_alloc'' = Some (Alloc_fn mdx_shim_mem_alloc)" "slot ''mem_zalloc'' = Some (Alloc_fn mdx_shim_mem_zalloc)"
  "slot ''mem_free'' = Some (Free_fn mdx_shim_mem_free)" "slot ''mem_cpy'' = Some (Cpy_fn mdx_shim_mem_cpy)"
  "slot ''mem_set'' = Some (Set_fn mdx_shim_mem_set)" "slot ''mem_cmp'' = Some (Cmp_fn mdx_shim_mem_cmp)"
  "slot ''qspi_read_reg32'' = Some (Read_fn mdx_shim_qspi_read_reg32)"
  "slot ''qspi_write_reg32'' = Some (Write_fn mdx_shim_qspi_write_reg32)"
  "slot ''qspi_cpy_from'' = Some (Copy_from_fn mdx_shim_qspi_cpy_from)"
  "slot ''qspi_cpy_to'' = Some (Copy_to_fn mdx_shim_qspi_cpy_to)"
  by (simp_all add: slot_def nrf_wifi_os_mdx_ops_def shim_functions_def)

text \<open>One call: it returns exactly when it is allowed, with the effect and a result as described.\<close>

lemma osal_field: "\<exists>e. osal (Field f) s = Inl e"
proof (cases "slot f")
  case None
  then show ?thesis by (simp add: osal_def)
next
  case (Some g)
  then show ?thesis by (cases g; cases s) (simp_all add: osal_def apply_shim_def)
qed

lemma osal_call:
  "if allowed (dom m) c then \<exists>r h'. osal c (m, h) = Inr (r, effect c m, h') \<and> answers c m r
   else \<exists>e. osal c (m, h) = Inl e"
proof (cases c)
  case (Mem_cmp a b n)
  then show ?thesis
    using memcmp_zero [of a n m b] by (auto simp: osal_def apply_shim_def slots shim_defs memcmp_def accessible_iff)
next
  case (Field f)
  then show ?thesis using osal_field by simp
qed (simp_all add: osal_def apply_shim_def slots shim_defs memcpy_effect memset_effect del: effect.simps, simp_all)




section \<open>Properties\<close>



text \<open>
  Linking: the functions that the table of the build names are exactly those that the file defines; the
  entries that the preprocessor removes name none of them, so they could not be compiled in.
\<close>

lemma ops_linked:
  "map snd (nrf_wifi_os_mdx_ops False low_power) = map fst shim_functions"
  by (simp add: nrf_wifi_os_mdx_ops_def shim_functions_def)

lemma ops_removed:
  "list_all (\<lambda>(f, name). name \<notin> set (map fst shim_functions)) (drop 10 (nrf_wifi_os_mdx_ops True low_power))"
  by (cases low_power) (simp_all add: nrf_wifi_os_mdx_ops_def shim_functions_def)

text \<open>
  The DECT test reports success whatever the modem's initialisation returned; the error is
  only printed.
\<close>

lemma dect_main_result:
  "fst (dect_main P h) = 0 \<and> last (snd (dect_main P h)) =
     Printf ''DECT PHY init return %d'' [AInt (kernel_ret P (h @ [Kernel ''nrf_modem_dect_phy_event_handler_set'' [],
       Kernel ''nrf_modem_dect_phy_init'' []]) ''nrf_modem_dect_phy_init'')]"
  by (simp add: dect_main_def printf_def Let_def)

end
