(* ===== verification/Main_App.thy ===== *)
theory Main_App
  imports Connection Math64 Gps Board Wifi
begin

text \<open>
  The application's \<open>main\<close> (\<^verbatim>\<open>src/src/main.c\<close>) up to its idle loop, and the handlers it installs.
\<close>

section \<open>Handlers\<close>

definition nrf_modem_fault_handler :: "u32 \<Rightarrow> u32 \<Rightarrow> history \<Rightarrow> history" where
  "nrf_modem_fault_handler reason program_counter h =
     printf ''reason %x, pc %x'' [AInt (uint reason), AInt (uint program_counter)] h"

definition nrf_modem_lib_dfu_handler :: "u32 \<Rightarrow> history \<Rightarrow> history" where
  "nrf_modem_lib_dfu_handler dfu_res h = printf ''implement me'' [] h"

definition callback :: "string \<Rightarrow> history \<Rightarrow> history" where
  "callback notif h = printf ''%s'' [AStr notif] h"

section \<open>The main function\<close>

text \<open>
  How \<open>main\<close> leaves its straight-line part: it reaches the idle loop, it panics, or the
  factorisation test evaluates an expression without a value. No value at all means that waiting
  for registration never ends.
\<close>

datatype main_end = Idle | Main_panicked | Main_undefined math_error

definition main_setup :: "platform \<Rightarrow> 'd gnss_lib \<Rightarrow> nat \<Rightarrow> console \<Rightarrow> history \<Rightarrow> (main_end \<times> console \<times> history) option" where
  "main_setup P L ctrl_size con h =
     (let (uart, h) = mdx_device_lookup_by_name P ''nrf_uarte'' 0 h
      in if \<not> uart then Some (Main_panicked, con, h @ [Panic ''uart dev not found'' []])
      else let h = kernel ''nrf_uarte_register_callback'' [AStr ''nrf_input''] h;
               h = kernel ''nrf_modem_init'' (concat (map (\<lambda>(base, len). [AInt (int base), AInt (int len)])
                     [shmem_ctrl (init_params ctrl_size), shmem_tx (init_params ctrl_size), shmem_rx (init_params ctrl_size)])) h;
               error = kernel_ret P h ''nrf_modem_init''
      in if error \<noteq> 0 then
           Some (Main_panicked, con, h @ [Panic ''could not initialize nrf_modem library, error %d'' [AInt error]])
      else let h = printf ''nrf_modem library initialized.'' [] h;
               h = kernel ''nrf_modem_at_notif_handler_set'' [AStr ''callback''] h;
               h = printf ''nrf_modem version: %s'' [AStr (modem_version P)] h;
               con = con\<lparr>buffer_fill := 0, ready_to_send := False\<rparr>
      in case lte_connect P h of
           None \<Rightarrow> None
         | Some (Panicked, h) \<Rightarrow> Some (Main_panicked, con, h)
         | Some (Returned _, h) \<Rightarrow>
             (case math_test P h of
                Inl e \<Rightarrow> Some (Main_undefined e, con, h)
              | Inr (_, h) \<Rightarrow>
                  let (error, h) = gps_init P L h;
                      h = printf (if error \<noteq> 0 then ''Can't initialize GPS'' else ''GPS initialized'') [] h
                  in Some (Idle, con, h)))"

text \<open>The first \<open>n\<close> iterations of the idle loop.\<close>

definition main_idle :: "nat \<Rightarrow> history \<Rightarrow> history" where
  "main_idle n h = (mdx_usleep 1000000 ^^ n) h"

section \<open>Lemmas\<close>

text \<open>The factorisation shows nothing in any view.\<close>

context event_view
begin

lemma rho_round_silent: "rho_round P pq g i iter h = Inr (r, h') \<Longrightarrow> grows view h h' []"
  by (auto simp: rho_round_def rand_def Let_def printf_def grows_events split: if_splits)

lemma rho_rounds_silent: "rho_rounds P pq g i iter h = Inr (g', h') \<Longrightarrow> grows view h h' []"
proof (induction P pq g i iter h rule: rho_rounds.induct)
  case (1 P pq g i iter h)
  show ?case
  proof (cases "i < 3 \<or> iter < 1000")
    case True
    with "1.prems" obtain g1 iter1 h1 where r: "rho_round P pq g i iter h = Inr ((g1, iter1), h1)"
      by (cases "rho_round P pq g i iter h") (auto simp: rho_rounds.simps [of P pq g i iter h])
    with rho_round_silent have a: "grows view h h1 []" by blast
    show ?thesis
    proof (cases "g1 > 1 \<and> g1 < pq")
      case True
      with \<open>i < 3 \<or> iter < 1000\<close> r "1.prems" a show ?thesis
        by (simp add: rho_rounds.simps [of P pq g i iter h])
    next
      case False
      with True r "1.prems" have next_round: "rho_rounds P pq g1 (i + 1) iter1 h1 = Inr (g', h')"
        by (simp add: rho_rounds.simps [of P pq g i iter h] split: if_splits)
      from grows_trans [OF a "1.IH" [OF True r refl refl False next_round]] show ?thesis by simp
    qed
  next
    case False
    with "1.prems" show ?thesis by (simp add: rho_rounds.simps [of P pq g i iter h] grows_refl)
  qed
qed

lemma math_test_silent:
  assumes "math_test P h = Inr (r, h')"
  shows "grows view h h' []"
proof -
  obtain g k args where "rho_rounds P 2341224282031054919 0 0 0
      (printf ''decomposing %lld ...'' [AInt (sint (2341224282031054919 :: u64))] h) = Inr (g, k)"
    "h' = printf ''p %lld q %lld'' args k"
    using assms by (auto simp: math_test_def decompose_64bit_def Let_def split: sum.splits if_splits)
  then show ?thesis
    using grows_trans [OF printf_silent grows_trans [OF rho_rounds_silent printf_silent]] by auto
qed

end

section \<open>A run that reaches the idle loop\<close>

text \<open>
  With this random number the factorisation succeeds in its first pass: 454363249 is congruent to
  its square plus 17 modulo the factor 1444444447.
\<close>

definition lucky :: platform where
  "lucky = all_ok\<lparr>random_u64 := (\<lambda>h. 454363248)\<rparr>"

lemma lucky_mul: "mul_loop 2341224282031054919 454363249 454363249 17 = 206445962041836018"
  by (simp add: word_unat_eq_iff unat_mul_loop)

lemma lucky_gcd: "gcd64 206445961587472769 2341224282031054919 = 1444444447"
  by (simp add: gcd64.simps)

lemma lucky_loop:
  "1 < lim \<Longrightarrow> rho_loop 2341224282031054919 17 454363249 454363249 g 1 lim iter = (1444444447, iter + 1)"
  by (subst rho_loop.simps) (simp add: lucky_mul lucky_gcd Let_def)

lemma lucky_rounds: "\<exists>h'. rho_rounds lucky 2341224282031054919 0 0 0 h = Inr (1444444447, h')"
proof -
  have "\<exists>h'. rho_round lucky 2341224282031054919 0 0 0 h = Inr ((1444444447, 1), h')"
    using lucky_loop [of "2 ^ 18" 0 0]
    by (simp add: rho_round_def rand_def lucky_def Let_def printf_def)
  then show ?thesis by (subst rho_rounds.simps) auto
qed

lemma lucky_math: "\<exists>h'. math_test lucky h = Inr (0, h')"
proof -
  obtain h' where "rho_rounds lucky 2341224282031054919 0 0 0
      (printf ''decomposing %lld ...'' [AInt (sint (2341224282031054919 :: u64))] h) = Inr (1444444447, h')"
    using lucky_rounds by blast
  then show ?thesis by (simp add: math_test_def decompose_64bit_def Let_def)
qed

lemma lucky_idle: "\<exists>con' h'. main_setup lucky L ctrl_size con h = Some (Idle, con', h')"
proof -
  have ok: "device_found lucky k ''nrf_uarte'' 0" "kernel_ret lucky k ''nrf_modem_init'' = 0" for k
    by (simp_all add: lucky_def all_ok_def)
  have connect: "\<exists>h'. lte_connect lucky k = Some (Returned 0, h')" for k
    unfolding lucky_def by (rule all_ok_returns)
  define h0 where "h0 = h @ [Lookup ''nrf_uarte'' 0 True, Kernel ''nrf_uarte_register_callback'' [AStr ''nrf_input''],
    Kernel ''nrf_modem_init'' (concat (map (\<lambda>(base, len). [AInt (int base), AInt (int len)])
      [shmem_ctrl (init_params ctrl_size), shmem_tx (init_params ctrl_size), shmem_rx (init_params ctrl_size)])),
    Printf ''nrf_modem library initialized.'' [], Kernel ''nrf_modem_at_notif_handler_set'' [AStr ''callback''],
    Printf ''nrf_modem version: %s'' [AStr (modem_version lucky)]]"
  obtain h1 where "lte_connect lucky h0 = Some (Returned 0, h1)" using connect by blast
  moreover obtain h2 where "math_test lucky h1 = Inr (0, h2)" using lucky_math by blast
  ultimately show ?thesis
    using ok by (simp add: main_setup_def run_simps Let_def h0_def split_beta)
qed

text \<open>A run that reaches the idle loop, cut into its parts.\<close>

definition start_events :: "nat \<Rightarrow> event list" where
  "start_events ctrl_size = [Lookup ''nrf_uarte'' 0 True, Kernel ''nrf_uarte_register_callback'' [AStr ''nrf_input''],
     Kernel ''nrf_modem_init'' [AInt 0x20010000, AInt (int ctrl_size), AInt 0x20011000, AInt 0x3800, AInt 0x20018800, AInt 0x7800]]"

lemma main_setup_cut:
  assumes "main_setup P L ctrl_size con h = Some (Idle, con', h')"
  obtains h0 r h2 v h1 where "kernel_ret P (h @ start_events ctrl_size) ''nrf_modem_init'' = 0"
    and "h0 = h @ start_events ctrl_size @ [Printf ''nrf_modem library initialized.'' [],
      Kernel ''nrf_modem_at_notif_handler_set'' [AStr ''callback''],
      Printf ''nrf_modem version: %s'' [AStr (modem_version P)]]"
    and "lte_connect P h0 = Some (Returned r, h2)" and "math_test P h2 = Inr (v, h1)"
    and "con' = con\<lparr>buffer_fill := 0, ready_to_send := False\<rparr>"
    and "h' = snd (gps_init P L h1) @ [Printf (if fst (gps_init P L h1) \<noteq> 0 then ''Can't initialize GPS'' else ''GPS initialized'') []]"
proof -
  define h0 where "h0 = h @ start_events ctrl_size @ [Printf ''nrf_modem library initialized.'' [],
      Kernel ''nrf_modem_at_notif_handler_set'' [AStr ''callback''],
      Printf ''nrf_modem version: %s'' [AStr (modem_version P)]]"
  have uart: "device_found P h ''nrf_uarte'' 0" and init: "kernel_ret P (h @ start_events ctrl_size) ''nrf_modem_init'' = 0"
    using assms by (auto simp: main_setup_def run_simps Let_def init_params_def shmem_defs start_events_def split: if_splits)
  with assms obtain r h2 where c: "lte_connect P h0 = Some (Returned r, h2)"
    and m: "(case math_test P h2 of Inl e \<Rightarrow> Some (Main_undefined e, con\<lparr>buffer_fill := 0, ready_to_send := False\<rparr>, h2)
      | Inr (_, h) \<Rightarrow> let (error, h) = gps_init P L h;
            h = printf (if error \<noteq> 0 then ''Can't initialize GPS'' else ''GPS initialized'') [] h
          in Some (Idle, con\<lparr>buffer_fill := 0, ready_to_send := False\<rparr>, h)) = Some (Idle, con', h')"
    by (auto simp: main_setup_def run_simps Let_def init_params_def shmem_defs start_events_def h0_def
        split: option.splits outcome.splits)
  from m obtain v h1 where "math_test P h2 = Inr (v, h1)" "con' = con\<lparr>buffer_fill := 0, ready_to_send := False\<rparr>"
      "h' = snd (gps_init P L h1) @ [Printf (if fst (gps_init P L h1) \<noteq> 0 then ''Can't initialize GPS'' else ''GPS initialized'') []]"
    by (auto simp: Let_def printf_def split_beta split: sum.splits)
  with that [OF init h0_def c] show thesis by blast
qed

lemma main_setup_idle:
  assumes "main_setup P L ctrl_size con h = Some (Idle, con', h')"
  shows "\<exists>h1 n registered msg. kernel_ret P (h @ start_events ctrl_size) ''nrf_modem_init'' = 0 \<and>
    grows at_view (h @ start_events ctrl_size) h1 (connect_cmds n registered) \<and>
    grows gnss_view (h @ start_events ctrl_size) h1 [] \<and>
    h' = snd (gps_init P L h1) @ [Printf msg []] \<and>
    (msg = ''GPS initialized'' \<longleftrightarrow> fst (gps_init P L h1) = 0) \<and>
    buffer_fill con' = 0 \<and> \<not> ready_to_send con'"
  using assms
proof (rule main_setup_cut)
  fix h0 r h2 v h1
  let ?pre = "start_events ctrl_size"
  assume init: "kernel_ret P (h @ ?pre) ''nrf_modem_init'' = 0"
    and h0: "h0 = h @ ?pre @ [Printf ''nrf_modem library initialized.'' [],
      Kernel ''nrf_modem_at_notif_handler_set'' [AStr ''callback''],
      Printf ''nrf_modem version: %s'' [AStr (modem_version P)]]"
    and c: "lte_connect P h0 = Some (Returned r, h2)" and t: "math_test P h2 = Inr (v, h1)"
    and g: "con' = con\<lparr>buffer_fill := 0, ready_to_send := False\<rparr>"
      "h' = snd (gps_init P L h1) @ [Printf (if fst (gps_init P L h1) \<noteq> 0 then ''Can't initialize GPS'' else ''GPS initialized'') []]"
  obtain n registered where a: "grows at_view h0 h2 (connect_cmds n registered)"
    using lte_connect_at [OF c] by blast
  have "grows at_view (h @ ?pre) h0 []" "grows gnss_view (h @ ?pre) h0 []"
    by (simp_all add: h0 grows_events at_view_def gnss_view_def flip: append_assoc)
  from grows_trans [OF this(1) grows_trans [OF a at_trace.math_test_silent [OF t]]]
    grows_trans [OF this(2) grows_trans [OF lte_connect_no_gnss [OF c] gnss_trace.math_test_silent [OF t]]]
  have "grows at_view (h @ ?pre) h1 (connect_cmds n registered)" "grows gnss_view (h @ ?pre) h1 []" by simp_all
  with init g show ?thesis by auto
qed

text \<open>The regions handed to the modem library, in one call in the whole run.\<close>

interpretation init_trace: connection_view "handed ''nrf_modem_init''" "\<lambda>c. []"
  by unfold_locales (simp_all add: handed_def)

lemma gps_init_hands_nothing: "grows (handed f) h (snd (gps_init P L h)) []"
proof -
  have "post (gps_init P L h) (\<lambda>(r, h'). grows (handed f) h h' [])"
    unfolding gps_init_def Let_def printf_def append_assoc
    by (intro post_intros; rule postI) (simp_all add: grows_events handed_def)
  then show ?thesis by (simp add: post_def split_beta)
qed

lemma main_setup_hands:
  assumes "main_setup P L ctrl_size con h = Some (Idle, con', h')"
  shows "grows (handed ''nrf_modem_init'') h h' [(0x20010000, ctrl_size), (0x20011000, 0x3800), (0x20018800, 0x7800)]"
    (is "grows ?v h h' ?regions")
  using assms
proof (rule main_setup_cut)
  fix h0 r h2 v h1
  assume h0: "h0 = h @ start_events ctrl_size @ [Printf ''nrf_modem library initialized.'' [],
      Kernel ''nrf_modem_at_notif_handler_set'' [AStr ''callback''],
      Printf ''nrf_modem version: %s'' [AStr (modem_version P)]]"
    and c: "lte_connect P h0 = Some (Returned r, h2)" and t: "math_test P h2 = Inr (v, h1)"
    and h': "h' = snd (gps_init P L h1) @ [Printf (if fst (gps_init P L h1) \<noteq> 0 then ''Can't initialize GPS'' else ''GPS initialized'') []]"
  have "grows ?v h h0 ?regions" by (simp add: h0 grows_events start_events_def handed_def)
  moreover have "grows ?v h0 h2 []" using init_trace.lte_connect_grows [OF c] by simp
  moreover have "grows ?v (snd (gps_init P L h1)) h' []" by (simp add: h' grows_events)
  ultimately show ?thesis
    using grows_trans [OF _ grows_trans [OF _ grows_trans [OF init_trace.math_test_silent [OF t]
        grows_trans [OF gps_init_hands_nothing]]]] by fastforce
qed

section \<open>Properties\<close>

text \<open>
  C15: if \<open>main\<close> reaches its idle loop, then the modem library was initialised successfully, with the three
  regions of its memory layout, before the first AT command, the AT commands were exactly the connection sequence with the switch from
  LTE to GPS at its end, no GNSS call was made before them and only then was
  the receiver configured, and the console buffer was empty when the connection started.
\<close>

theorem main_sequence:
  assumes "main_setup P L ctrl_size con h = Some (Idle, con', h')"
  shows "\<exists>pre h1 n registered msg.
    pre = [Lookup ''nrf_uarte'' 0 True, Kernel ''nrf_uarte_register_callback'' [AStr ''nrf_input''],
      Kernel ''nrf_modem_init'' [AInt 0x20010000, AInt (int ctrl_size), AInt 0x20011000, AInt 0x3800, AInt 0x20018800, AInt 0x7800]] \<and>
    kernel_ret P (h @ pre) ''nrf_modem_init'' = 0 \<and>
    grows at_view (h @ pre) h1 (connect_cmds n registered) \<and> grows gnss_view (h @ pre) h1 [] \<and>
    h' = snd (gps_init P L h1) @ [Printf msg []] \<and>
    (msg = ''GPS initialized'' \<longleftrightarrow> fst (gps_init P L h1) = 0) \<and>
    buffer_fill con' = 0 \<and> \<not> ready_to_send con'"
  using main_setup_idle [OF assms] unfolding start_events_def by blast

definition some_gnss :: "string gnss_lib" where
  "some_gnss = \<lparr>EVT_PVT = 1, EVT_NMEA = 3, EVT_AGNSS_REQ = 4, SV_FLAG_USED_IN_FIX = 2,
     SV_FLAG_UNHEALTHY = 8, PVT_FLAG_NOT_ENOUGH_WINDOW_TIME = 16, PVT_FLAG_DEADLINE_MISSED = 8,
     PVT_FLAG_FIX_VALID = 1, PSM_DISABLED = 0, NMEA_GGA_MASK = 1,
     pvt_data = (\<lambda>h. \<lparr>svs = [], pvt_flags = 1, latitude = ''52.2'', longitude = ''0.1''\<rparr>),
     nmea_str = (\<lambda>h. ''GPGGA''), ftoa = (\<lambda>d. d)\<rparr>"

definition some_console :: console where
  "some_console = \<lparr>buffer = replicate 128 0, buffer_fill = 5, ready_to_send = True\<rparr>"

theorem main_sequence_witness:
  "\<exists>con' h' pre h1 n registered. main_setup lucky some_gnss 0x4e8 some_console [] = Some (Idle, con', h') \<and>
     grows at_view pre h1 (connect_cmds n registered) \<and> length pre = 3 \<and> buffer_fill con' = 0"
proof -
  obtain con' h' where m: "main_setup lucky some_gnss 0x4e8 some_console [] = Some (Idle, con', h')"
    using lucky_idle by blast
  from main_sequence [OF m] m show ?thesis by fastforce
qed

end
