(* ===== verification/Fpu.thy ===== *)
theory Fpu
  imports CStrings Platform Float32
begin

text \<open>
  The floating-point test of \<^verbatim>\<open>src/src/gps.c\<close> (\<open>fpu_test\<close> and its thread \<open>test_thr\<close>), which adds a
  constant one million times in single precision and prints the sum, for ever. The arithmetic is that of
  the theory \<open>Float32\<close>. The conversion of numbers to text is a parameter.
\<close>

section \<open>The test\<close>

text \<open>The loop \<open>for (i = 0; i < n; i++) b += a\<close>, with the number of iterations left.\<close>

fun add_loop :: "nat \<Rightarrow> f32 \<Rightarrow> f32 \<Rightarrow> f32" where
  "add_loop 0 a b = b"
| "add_loop (Suc n) a b = add_loop n a (f32_add b a)"

text \<open>
  The literal \<open>0.1\<close> is the double nearest to one tenth, 3602879701896397 times $2^{-55}$; assigning
  it to a \<open>float\<close> rounds it. The other literals are exact in both formats.
\<close>

definition double_tenth :: int where
  "double_tenth = 3602879701896397 * 2 ^ 94"

definition one_pass :: "(f32 \<Rightarrow> int \<Rightarrow> string) \<Rightarrow> f32 \<Rightarrow> string \<Rightarrow> history \<Rightarrow> history" where
  "one_pass ftoa a fmt h =
     (let b = Finite 0;
          b = add_loop 1000000 a b;
          buf = ftoa b 10;
          h = h @ [Kernel ''critical_enter'' []];
          h = printf fmt [AStr buf] h
      in h @ [Kernel ''critical_exit'' []])"

text \<open>
  Both functions loop for ever; \<open>n\<close> is the number of passes observed.
\<close>

definition test_thr :: "(f32 \<Rightarrow> int \<Rightarrow> string) \<Rightarrow> nat \<Rightarrow> history \<Rightarrow> history" where
  "test_thr ftoa n h =
     (let d = Finite (2 ^ 146);
          h = printf ''d is: %s'' [AStr (ftoa d 10)] h
      in (one_pass ftoa (f32_round double_tenth) ''result0 %s'' ^^ n) h)"

definition fpu_test :: "platform \<Rightarrow> (f32 \<Rightarrow> int \<Rightarrow> string) \<Rightarrow> nat \<Rightarrow> history \<Rightarrow> c_error + history" where
  "fpu_test P ftoa n h =
     (let h = h @ [Kernel ''mdx_thread_create'' [AStr ''test'', AInt 1, AInt 10000, AInt 4096, AStr ''test_thr'']];
          td = kernel_ret P h ''mdx_thread_create'';
          h = h @ [Kernel ''vfp_control'' [AInt 1]]
      in if td = 0 then Inl Null_pointer
      else let h = h @ [Kernel ''pcb_flags'' [AInt td, AStr ''PCB_FLAGS_FPU'']];
               h = h @ [Kernel ''mdx_sched_add'' [AInt td]]
           in Inr ((one_pass ftoa (Finite (2 ^ 148)) ''result1 %s'' ^^ n) h))"

section \<open>Sums\<close>

lemma add_loop_add: "add_loop (m + n) a b = add_loop n a (add_loop m a b)"
  by (induction m arbitrary: b) simp_all

lemma add_halves:
  "0 \<le> k \<Longrightarrow> k + int n < 2 ^ 24 \<Longrightarrow> add_loop n (Finite (2 ^ 148)) (Finite (k * 2 ^ 148)) = Finite ((k + int n) * 2 ^ 148)"
proof (induction n arbitrary: k)
  case (Suc n)
  have IH: "add_loop n (Finite (2 ^ 148)) (Finite ((k + 1) * 2 ^ 148)) = Finite ((k + 1 + int n) * 2 ^ 148)"
    by (rule Suc.IH) (use Suc.prems in simp_all)
  have "round24 ((k + 1) * 2 ^ 148) = (k + 1) * 2 ^ 148" using Suc.prems by (intro round24_exact) simp_all
  then have "f32_round ((k + 1) * 2 ^ 148) = Finite ((k + 1) * 2 ^ 148)"
    by (rule f32_round_small) (use Suc.prems in simp_all)
  moreover have "k * 2 ^ 148 + 2 ^ 148 = (k + 1) * 2 ^ 148" by (simp only: distrib_right mult_1)
  ultimately have "f32_add (Finite (k * 2 ^ 148)) (Finite (2 ^ 148)) = Finite ((k + 1) * 2 ^ 148)"
    by (simp only: f32_add.simps)
  then show ?case using IH by (simp only: add_loop.simps of_nat_Suc ac_simps)
qed simp

text \<open>
  While the sum stays between two powers of two, each addition adds the same rounded amount. A
  run \<open>(n, s, d)\<close> is \<open>n\<close> additions of \<open>d\<close> with sums rounded to multiples of \<open>2 ^ s\<close>; all numbers
  count multiples of $2^{-27}$, the last bit of the constant \<open>a\<close>.
\<close>

definition run_ok :: "int \<Rightarrow> int \<Rightarrow> nat \<times> nat \<times> int \<Rightarrow> bool" where
  "run_ok a b r = (case r of (n, s, d) \<Rightarrow>
     s \<le> 100 \<and> 0 < d \<and> 2 ^ (23 + s) \<le> b + a \<and> b + (int n - 1) * d + a < 2 ^ (24 + s) \<and>
     2 ^ s dvd b + d \<and> (n = 1 \<or> 2 ^ s dvd d) \<and> 2 * \<bar>a - d\<bar> < 2 ^ s)"

fun follow :: "int \<Rightarrow> (nat \<times> nat \<times> int) list \<Rightarrow> nat \<Rightarrow> int \<Rightarrow> (nat \<times> int) option" where
  "follow a [] k b = Some (k, b)"
| "follow a ((n, s, d) # rs) k b = (if run_ok a b (n, s, d) then follow a rs (k + n) (b + int n * d) else None)"

definition scaled :: "int \<Rightarrow> f32" where
  "scaled k = Finite (k * 2 ^ 122)"

lemma add_once:
  assumes "s \<le> 100" "2 ^ (23 + s) \<le> b + a" "b + a < 2 ^ (24 + s)" "2 ^ s dvd b + d" "2 * \<bar>a - d\<bar> < 2 ^ s" "0 \<le> b + d"
  shows "f32_add (scaled b) (scaled a) = scaled (b + d)"
proof -
  have "round24 ((b + a) * 2 ^ 122) = (b + d) * 2 ^ 122"
    using assms by (intro round24_nearest [of s]) simp_all
  moreover have "b + d \<le> 2 ^ (277 - Suc 122)"
  proof -
    have "b + d \<le> X + X" if "Y \<le> X" "b + a < X" "2 * t < Y" "0 \<le> t" "d - a \<le> t" for X Y t :: int
      using that by linarith
    from this [OF power_increasing assms(3,5)] have "b + d \<le> 2 ^ (24 + s) + 2 ^ (24 + s)" by simp
    also have "\<dots> = 2 ^ (25 + s)" by (simp add: power_add)
    also have "\<dots> \<le> 2 ^ (277 - Suc 122)" using assms(1) by (intro power_increasing) simp_all
    finally show ?thesis .
  qed
  ultimately have "f32_round ((b + a) * 2 ^ 122) = Finite ((b + d) * 2 ^ 122)"
    using assms(6) by (intro f32_round_small) simp_all
  then show ?thesis by (simp only: scaled_def f32_add.simps distrib_right)
qed

lemma run_adds:
  "run_ok a b (n, s, d) \<Longrightarrow> 0 \<le> b \<Longrightarrow> add_loop n (scaled a) (scaled b) = scaled (b + int n * d)"
proof (induction n arbitrary: b)
  case (Suc n)
  from Suc.prems have r: "s \<le> 100" "0 < d" "2 ^ (23 + s) \<le> b + a" "b + int n * d + a < 2 ^ (24 + s)"
    "2 ^ s dvd b + d" "n = 0 \<or> 2 ^ s dvd d" "2 * \<bar>a - d\<bar> < 2 ^ s" by (auto simp: run_ok_def)
  have "0 \<le> int n * d" using r(2) by simp
  with r(4) have "b + a < 2 ^ (24 + s)" by linarith
  with r Suc.prems(2) have "f32_add (scaled b) (scaled a) = scaled (b + d)" by (intro add_once) auto
  moreover have "add_loop n (scaled a) (scaled (b + d)) = scaled (b + d + int n * d)"
  proof (cases "n = 0")
    case False
    with r have "run_ok a (b + d) (n, s, d)" by (auto simp: run_ok_def algebra_simps)
    with Suc.IH Suc.prems(2) r(2) show ?thesis by simp
  qed simp
  ultimately show ?case by (simp add: algebra_simps)
qed simp

lemma follow_adds:
  "follow a rs k b = Some (m, c) \<Longrightarrow> 0 \<le> b \<Longrightarrow>
     k \<le> m \<and> add_loop (m - k) (scaled a) (scaled b) = scaled c"
proof (induction a rs k b arbitrary: m c rule: follow.induct)
  case (2 a n s d rs k b)
  from "2.prems" have r: "run_ok a b (n, s, d)" and f: "follow a rs (k + n) (b + int n * d) = Some (m, c)"
    by (auto split: if_splits)
  from r have "0 \<le> b + int n * d" using "2.prems"(2) by (auto simp: run_ok_def)
  with "2.IH" [OF r f] have m: "k + n \<le> m" "add_loop (m - (k + n)) (scaled a) (scaled (b + int n * d)) = scaled c"
    by auto
  then have "m - k = n + (m - (k + n))" by simp
  then have "add_loop (m - k) (scaled a) (scaled b) = add_loop (m - (k + n)) (scaled a) (add_loop n (scaled a) (scaled b))"
    by (metis add_loop_add)
  with m run_adds [OF r "2.prems"(2)] show ?case by simp
qed simp

text \<open>The runs of the sum of one million tenths.\<close>

definition tenth_runs :: "(nat \<times> nat \<times> int) list" where
  "tenth_runs = [(1, 0, 13421773), (1, 1, 13421773), (1, 2, 13421774), (1, 2, 13421772), (1, 3, 13421772), (4, 3,
    13421776), (10, 4, 13421776), (21, 5, 13421760), (1, 6, 13421792), (39, 6, 13421760), (1, 7,
    13421760), (78, 7, 13421824), (160, 8, 13421824), (321, 9, 13421568), (640, 10, 13421568), (1, 11,
    13421568), (1278, 11, 13422592), (1, 12, 13420544), (2559, 12, 13422592), (1, 13, 13422592), (5121,
    13, 13418496), (1, 14, 13426688), (10241, 14, 13418496), (20460, 15, 13434880), (1, 16, 13402112),
    (40919, 16, 13434880), (1, 17, 13434880), (82240, 17, 13369344), (164483, 18, 13369344), (322639,
    19, 13631488), (1, 20, 13107200), (348773, 20, 13631488)]"

lemma follow_tenth: "follow 13421773 tenth_runs 0 0 = Some (1000000, 13550399520768)"
  by (simp add: tenth_runs_def run_ok_def)

lemma tenth_single: "f32_round double_tenth = scaled 13421773"
proof -
  have "round24 (3602879701896397 * 2 ^ 94) = 3602879755583488 * 2 ^ 94"
    by (rule round24_nearest [of 28]) simp_all
  then have "f32_round (3602879701896397 * 2 ^ 94) = Finite (3602879755583488 * 2 ^ 94)"
    by (rule f32_round_small) simp_all
  then show ?thesis by (simp add: double_tenth_def scaled_def)
qed

text \<open>What one pass adds to the history.\<close>

definition critical_line :: "string \<Rightarrow> string \<Rightarrow> event list" where
  "critical_line fmt text = [Kernel ''critical_enter'' [], Printf fmt [AStr text], Kernel ''critical_exit'' []]"

lemma passes:
  "(one_pass ftoa a fmt ^^ n) h =
     h @ concat (replicate n (critical_line fmt (ftoa (add_loop 1000000 a (Finite 0)) 10)))"
proof (induction n arbitrary: h)
  case (Suc n)
  have "one_pass ftoa a fmt h = h @ critical_line fmt (ftoa (add_loop 1000000 a (Finite 0)) 10)" for h
    by (simp add: one_pass_def critical_line_def printf_def Let_def)
  with Suc show ?case by (simp only: funpow_Suc_right comp_apply replicate_Suc concat.simps append_assoc)
qed simp

section \<open>Properties\<close>

text \<open>
  C35: the sums the two threads of the floating-point test print in every pass, between entering and
  leaving the critical section. One million times 0.5 is exactly 500000; one million times the
  single-precision 0.1 is 100958.34375 (3230667/32), almost one percent above the true product,
  because the sum outgrows the precision of its terms. When the thread cannot be created, the
  test writes through a null pointer.
\<close>

theorem fpu_test_sums:
  "fpu_test P ftoa n h =
     (let h1 = h @ [Kernel ''mdx_thread_create'' [AStr ''test'', AInt 1, AInt 10000, AInt 4096, AStr ''test_thr'']];
          td = kernel_ret P h1 ''mdx_thread_create''
      in if td = 0 then Inl Null_pointer
         else Inr (h1 @ [Kernel ''vfp_control'' [AInt 1], Kernel ''pcb_flags'' [AInt td, AStr ''PCB_FLAGS_FPU''],
                Kernel ''mdx_sched_add'' [AInt td]] @
              concat (replicate n (critical_line ''result1 %s'' (ftoa (Finite (500000 * 2 ^ 149)) 10))))) \<and>
   test_thr ftoa n h = h @ Printf ''d is: %s'' [AStr (ftoa (Finite (2 ^ 146)) 10)] #
     concat (replicate n (critical_line ''result0 %s'' (ftoa (Finite (3230667 * 2 ^ 144)) 10)))"
proof (intro conjI)
  have "add_loop 1000000 (Finite (2 ^ 148)) (Finite (0 * 2 ^ 148)) = Finite ((0 + int 1000000) * 2 ^ 148)"
    by (rule add_halves) simp_all
  then have halves: "add_loop 1000000 (Finite (2 ^ 148)) (Finite 0) = Finite (500000 * 2 ^ 149)" by simp
  show "fpu_test P ftoa n h = (let h1 = h @ [Kernel ''mdx_thread_create'' [AStr ''test'', AInt 1, AInt 10000,
        AInt 4096, AStr ''test_thr'']]; td = kernel_ret P h1 ''mdx_thread_create''
      in if td = 0 then Inl Null_pointer
         else Inr (h1 @ [Kernel ''vfp_control'' [AInt 1], Kernel ''pcb_flags'' [AInt td, AStr ''PCB_FLAGS_FPU''],
                Kernel ''mdx_sched_add'' [AInt td]] @
              concat (replicate n (critical_line ''result1 %s'' (ftoa (Finite (500000 * 2 ^ 149)) 10)))))"
    unfolding fpu_test_def passes halves Let_def by simp
  have "add_loop 1000000 (scaled 13421773) (scaled 0) = scaled 13550399520768"
    using follow_adds [OF follow_tenth] by simp
  then have tenths: "add_loop 1000000 (f32_round double_tenth) (Finite 0) = Finite (3230667 * 2 ^ 144)"
    by (simp add: tenth_single) (simp add: scaled_def)
  show "test_thr ftoa n h = h @ Printf ''d is: %s'' [AStr (ftoa (Finite (2 ^ 146)) 10)] #
     concat (replicate n (critical_line ''result0 %s'' (ftoa (Finite (3230667 * 2 ^ 144)) 10)))"
    unfolding test_thr_def passes tenths Let_def printf_def by simp
qed

end
