(* ===== verification/Image.thy ===== *)
theory Image
  imports Board
begin

text \<open>
  The firmware image: the memory map and section layout of the linker script
  (\<^verbatim>\<open>src/src/ldscript\<close>), the device tree that \<open>board_init\<close> expects in flash, the flash pages the makefile
  programs, and the branches into the boot loader (\<^verbatim>\<open>src/src/jump.S\<close>).
\<close>

section \<open>Memory map\<close>

text \<open>The other two areas, \<open>sram1\<close> for the modem and \<open>sram3\<close> for the heap, are those of \<open>Board\<close>.\<close>

definition flash :: region where "flash = (0x40000, 1024 * 1024 - 0x40000 - 0x4000)"
definition sram0 :: region where "sram0 = (0x20000000, 0x10000)"
definition sram2 :: region where "sram2 = (0x20020000, 0x10000)"

text \<open>
  Programming, as in \<^verbatim>\<open>src/Makefile\<close>: the pages erased for the device tree, the offset its hex file gets,
  and the pages erased for the image. The end of a page range is exclusive. The address \<open>board_init\<close> installs
  the device tree from is \<open>dtb_addr\<close> of \<open>Board\<close>.
\<close>

definition dtb_pages :: region where "dtb_pages = (0xf8000, 0xfc000 - 0xf8000)"

definition dtb_offset :: nat where "dtb_offset = 1015808"

definition app_pages :: region where "app_pages = (0x40000, 0xcd000 - 0x40000)"

section \<open>Section layout\<close>

text \<open>
  The sizes of the input sections. Alignment that the linker adds in front of a section counts as part
  of the section before it.
\<close>

record input_sizes =
  start_text :: nat
  text_size :: nat
  rodata_size :: nat
  data_size :: nat
  sysinit_size :: nat
  bss_size :: nat

record image =
  start_at :: region
  text_at :: region
  rodata_at :: region
  data_load :: region
  data_at :: region
  sysinit_at :: region
  bss_at :: region
  smem :: nat

datatype link_error = Overflows string

definition align4 :: "nat \<Rightarrow> nat" where
  "align4 a = (a + 3) div 4 * 4"

definition region_end :: "region \<Rightarrow> nat" where
  "region_end r = fst r + snd r"

text \<open>
  Sections follow each other in their area; \<open>.data\<close> has its address in \<open>sram2\<close> and its contents in
  \<open>flash\<close>. The linker reports an area that overflows.
\<close>

definition link :: "input_sizes \<Rightarrow> link_error + image" where
  "link z =
     (let start_at = (0x40000, start_text z);
          text_at = (region_end start_at, text_size z);
          rodata_at = (region_end text_at, rodata_size z);
          smem = region_end rodata_at;
          sdata = fst sram2;
          sysinit_at = (align4 (sdata + data_size z), sysinit_size z);
          data_at = (sdata, region_end sysinit_at - sdata);
          data_load = (smem, snd data_at);
          bss_at = (region_end data_at, bss_size z)
      in if region_end flash < region_end data_load then Inl (Overflows ''flash'')
         else if region_end sram2 < region_end bss_at then Inl (Overflows ''sram2'')
         else Inr \<lparr>start_at = start_at, text_at = text_at, rodata_at = rodata_at, data_load = data_load,
                data_at = data_at, sysinit_at = sysinit_at, bss_at = bss_at, smem = smem\<rparr>)"

definition flash_image :: "image \<Rightarrow> region" where
  "flash_image im = (fst (start_at im), region_end (data_load im) - fst (start_at im))"

section \<open>Entries of the boot loader\<close>

text \<open>The branch targets, each a slot of eight bytes at the end of the boot loader's first 32 KB.\<close>

definition jump_target :: "string \<rightharpoonup> nat" where
  "jump_target = [''sys_entry'' \<mapsto> 0x7fe0, ''get_random_number'' \<mapsto> 0x7fe8]"

lemma jump_slots:
  "jump_target ''sys_entry'' = Some (0x8000 - 32)" "jump_target ''get_random_number'' = Some (0x8000 - 32 + 8)"
  "f \<in> dom jump_target \<Longrightarrow> within (the (jump_target f), 8) (0, 0x8000) \<and> disjoint (the (jump_target f), 8) flash"
  by (auto simp: jump_target_def within_def disjoint_def flash_def)

section \<open>Properties\<close>

lemma align4_ge: "a \<le> align4 a" "align4 a mod 4 = 0" "align4 a < a + 4"
proof -
  have "a + 3 = (a + 3) div 4 * 4 + (a + 3) mod 4" by simp
  moreover have "(a + 3) mod 4 < 4" by simp
  ultimately show "a \<le> align4 a" "align4 a < a + 4" unfolding align4_def by linarith+
qed (simp add: align4_def)

text \<open>The variables of an image lie in their own part of the RAM, \<open>.data\<close> apart from \<open>.bss\<close>.\<close>

lemma image_ram:
  assumes "link z = Inr im"
  shows "within (data_at im) sram2" and "within (bss_at im) sram2" and "disjoint (data_at im) (bss_at im)"
  using assms by (auto simp: link_def Let_def region_end_def flash_def sram2_def within_def disjoint_def split: if_splits)

text \<open>
  C14: the layout of a linked image. In flash, the code, the constants and the initial values follow each
  other inside the application's area, and \<open>_smem\<close> is where the initial values are; in RAM, the
  variables lie in \<open>sram2\<close> with the aligned initialisation set inside \<open>.data\<close>, apart from the boot
  loader's RAM, from every region given to the modem library, from the shared-memory zone and from
  the heap. The device tree is safe from the image exactly when the image has at most 0xb8000 bytes,
  which is 0x4000 less than what the linker accepts. The device tree is programmed where \<open>board_init\<close>
  looks for it, on pages that programming the image leaves alone; but the pages erased for the image
  hold only images of at most 0x8d000 bytes.
\<close>

theorem image_layout:
  assumes "link z = Inr im" and "ctrl_size_assert ctrl_size"
  shows "sorted_wrt disjoint [start_at im, text_at im, rodata_at im, data_load im] \<and>
    (\<forall>r \<in> {start_at im, text_at im, rodata_at im, data_load im}. within r flash) \<and>
    smem im = fst (data_load im) \<and> snd (data_load im) = snd (data_at im) \<and>
    within (sysinit_at im) (data_at im) \<and> fst (sysinit_at im) mod 4 = 0 \<and> disjoint (data_at im) (bss_at im) \<and>
    (\<forall>r \<in> {data_at im, bss_at im}. within r sram2 \<and>
       (\<forall>s \<in> {sram0, shmem_ctrl (init_params ctrl_size), shmem_tx (init_params ctrl_size),
          shmem_rx (init_params ctrl_size), shm_tx_region, heap_region}. disjoint r s)) \<and>
    (disjoint (flash_image im) dtb_pages \<longleftrightarrow> snd (flash_image im) \<le> 0xb8000) \<and>
    within dtb_pages flash \<and> snd flash = 0xb8000 + 0x4000 \<and>
    dtb_offset = dtb_addr \<and> fst dtb_pages = dtb_addr \<and> disjoint app_pages dtb_pages \<and>
    (within (flash_image im) app_pages \<longleftrightarrow> snd (flash_image im) \<le> 0x8d000)"
  using assms align4_ge [of "0x20020000 + data_size z"]
  by (auto simp: link_def Let_def region_end_def flash_image_def flash_def sram0_def sram2_def dtb_addr_def
      dtb_pages_def dtb_offset_def app_pages_def region_defs ctrl_size_assert_def within_def disjoint_def
      split: if_splits)

theorem image_layout_witness:
  "\<exists>im. link \<lparr>start_text = 0x200, text_size = 0x60000, rodata_size = 0x8000, data_size = 0x1001,
      sysinit_size = 0x80, bss_size = 0x4000\<rparr> = Inr im \<and> sysinit_at im = (0x20021004, 0x80) \<and>
     within (bss_at im) sram2 \<and> disjoint (flash_image im) dtb_pages"
proof -
  obtain im where im: "link \<lparr>start_text = 0x200, text_size = 0x60000, rodata_size = 0x8000, data_size = 0x1001,
      sysinit_size = 0x80, bss_size = 0x4000\<rparr> = Inr im" "sysinit_at im = (0x20021004, 0x80)"
    "snd (flash_image im) \<le> 0xb8000"
    by (simp add: link_def Let_def region_end_def flash_def sram2_def align4_def flash_image_def)
  have "ctrl_size_assert 0x4e8" by (simp add: ctrl_size_assert_def)
  from image_layout [OF im(1) this] im show ?thesis by blast
qed

text \<open>An image that the linker accepts and that overlaps the device tree.\<close>

lemma image_over_dtb:
  "\<exists>im. link \<lparr>start_text = 0x200, text_size = 0xb8000, rodata_size = 0, data_size = 0, sysinit_size = 0,
      bss_size = 0\<rparr> = Inr im \<and> \<not> disjoint (flash_image im) dtb_pages"
  by (simp add: link_def Let_def region_end_def flash_def sram2_def align4_def flash_image_def dtb_pages_def
      disjoint_def)

end
