(* ===== verification/Lcd.thy ===== *)
theory Lcd
  imports Platform
begin

text \<open>
  The memory-in-pixel display (\<^verbatim>\<open>src/src/lcd.c\<close>): bit-banged serial output on GPIO pins, the
  display commands built on it, and the initialisation that fills the screen. The second half
  models the receiving side, a display that samples the data pin on the rising clock edge while
  it is selected, and shows what it receives.
\<close>

section \<open>Pins\<close>

definition LCD_EXTMODE :: nat where "LCD_EXTMODE = 21"
definition LCD_DISP :: nat where "LCD_DISP = 22"
definition LCD_EXTCOMIN :: nat where "LCD_EXTCOMIN = 23"
definition LCD_CS :: nat where "LCD_CS = 24"
definition LCD_MOSI :: nat where "LCD_MOSI = 25"
definition LCD_SCK :: nat where "LCD_SCK = 10"

lemmas pin_defs = LCD_EXTMODE_def LCD_DISP_def LCD_EXTCOMIN_def LCD_CS_def LCD_MOSI_def LCD_SCK_def

datatype gpio = Gpio_configure nat | Gpio_set nat bool | Delay nat

text \<open>
  The driver's state: the \<open>vcom\<close> flag, and the pin operations and busy-wait delays, in iterations of
  the empty inner loop, that it has made so far.
\<close>

record lcd =
  vcom :: u8
  pins :: "gpio list"

definition mdx_gpio :: "gpio \<Rightarrow> lcd \<Rightarrow> lcd" where
  "mdx_gpio e s = s\<lparr>pins := pins s @ [e]\<rparr>"

text \<open>
  The busy-wait: the outer loop from \<open>i\<close> on, with the iterations of the inner loop, which runs
  once each time, counted.
\<close>

function usleep_loop :: "int \<Rightarrow> int \<Rightarrow> nat \<Rightarrow> nat" where
  "usleep_loop i count n = (if i < count then usleep_loop (i + 1) count (n + 1) else n)"
  by auto

termination usleep_loop
  by (relation "measure (\<lambda>(i, count, n). nat (count - i))") auto

declare usleep_loop.simps [simp del]

definition mdx_usleep2 :: "int \<Rightarrow> lcd \<Rightarrow> lcd" where
  "mdx_usleep2 count s = mdx_gpio (Delay (usleep_loop 0 count 0)) s"

lemma usleep_loop_count: "usleep_loop i count n = n + nat (count - i)"
proof (induction i count n rule: usleep_loop.induct)
  case (1 i count n)
  then show ?case by (cases "i < count") (auto simp: usleep_loop.simps [of i])
qed

lemma mdx_usleep2_delay: "mdx_usleep2 count s = mdx_gpio (Delay (nat count)) s"
  by (simp add: mdx_usleep2_def usleep_loop_count)

definition pin_set :: "nat \<Rightarrow> lcd \<Rightarrow> lcd" where
  "pin_set pin s = mdx_gpio (Gpio_set pin True) s"

definition pin_clr :: "nat \<Rightarrow> lcd \<Rightarrow> lcd" where
  "pin_clr pin s = mdx_gpio (Gpio_set pin False) s"

section \<open>Commands\<close>

definition JDI_CMD_ALL_CLEAR :: u8 where "JDI_CMD_ALL_CLEAR = 0x20"
definition JDI_CMD_INVERSION :: u8 where "JDI_CMD_INVERSION = 0x14"
definition LCD_COLOR_CMD_UPDATE :: u8 where "LCD_COLOR_CMD_UPDATE = 0x90"
definition LCD_COLOR_CMD_NO_UPDATE :: u8 where "LCD_COLOR_CMD_NO_UPDATE = 0x00"
definition LCD_COLOR_CMD_BLINKING_WHITE :: u8 where "LCD_COLOR_CMD_BLINKING_WHITE = 0x18"
definition LCD_COLOR_CMD_BLINKING_BLACK :: u8 where "LCD_COLOR_CMD_BLINKING_BLACK = 0x10"
definition LCD_COLOR_CMD_INVERSION :: u8 where "LCD_COLOR_CMD_INVERSION = 0x14"

definition toggle_vcom :: "lcd \<Rightarrow> lcd" where
  "toggle_vcom s =
     (if vcom s \<noteq> 0 then (pin_clr LCD_EXTCOMIN s)\<lparr>vcom := 0\<rparr>
      else (pin_set LCD_EXTCOMIN s)\<lparr>vcom := 1\<rparr>)"

definition lcd_reset :: "lcd \<Rightarrow> lcd" where
  "lcd_reset s =
     (let s = pin_clr LCD_CS s;
          s = pin_clr LCD_DISP s;
          s = mdx_usleep2 10000 s;
          s = pin_set LCD_DISP s
      in mdx_usleep2 120000 s)"

text \<open>The loop of \<open>Write_Data\<close>, with the number of iterations left.\<close>

fun write_bits :: "nat \<Rightarrow> u8 \<Rightarrow> lcd \<Rightarrow> lcd" where
  "write_bits 0 dh s = s"
| "write_bits (Suc n) dh s =
     (let s = pin_clr LCD_SCK s;
          s = (if dh AND 0x80 \<noteq> 0 then pin_set LCD_MOSI s else pin_clr LCD_MOSI s);
          s = pin_set LCD_SCK s
      in write_bits n (push_bit 1 dh) s)"

definition Write_Data :: "u8 \<Rightarrow> lcd \<Rightarrow> lcd" where
  "Write_Data dh s = pin_clr LCD_SCK (write_bits 8 dh s)"

text \<open>The colour argument of \<open>ClearScreen\<close>, which the function does not use, is left out.\<close>

definition ClearScreen :: "lcd \<Rightarrow> lcd" where
  "ClearScreen s =
     (let s = pin_set LCD_CS s;
          reg = JDI_CMD_ALL_CLEAR;
          s = Write_Data reg s;
          s = Write_Data 0x00 s
      in pin_clr LCD_CS s)"

definition invertDisplay :: "lcd \<Rightarrow> lcd" where
  "invertDisplay s =
     (let s = pin_set LCD_CS s;
          reg = JDI_CMD_INVERSION;
          s = Write_Data reg s;
          s = Write_Data 0x00 s
      in pin_clr LCD_CS s)"

definition LCD_BLINKMODE_NONE :: u8 where [simp]: "LCD_BLINKMODE_NONE = 0x00"
definition LCD_BLINKMODE_WHITE :: u8 where [simp]: "LCD_BLINKMODE_WHITE = 0x01"
definition LCD_BLINKMODE_BLACK :: u8 where [simp]: "LCD_BLINKMODE_BLACK = 0x02"
definition LCD_BLINKMODE_INVERSE :: u8 where [simp]: "LCD_BLINKMODE_INVERSE = 0x03"

definition blink_cmd :: "u8 \<Rightarrow> u8" where
  "blink_cmd mode =
     (if mode = LCD_BLINKMODE_NONE then LCD_COLOR_CMD_NO_UPDATE
      else if mode = LCD_BLINKMODE_WHITE then LCD_COLOR_CMD_BLINKING_WHITE
      else if mode = LCD_BLINKMODE_BLACK then LCD_COLOR_CMD_BLINKING_BLACK
      else if mode = LCD_BLINKMODE_INVERSE then LCD_COLOR_CMD_INVERSION
      else LCD_COLOR_CMD_NO_UPDATE)"

definition setBlinkMode :: "u8 \<Rightarrow> lcd \<Rightarrow> lcd" where
  "setBlinkMode mode s =
     (let s = pin_set LCD_CS s;
          s = Write_Data (blink_cmd mode) s;
          s = Write_Data 0x00 s
      in pin_clr LCD_CS s)"

definition set_line :: "u8 \<Rightarrow> lcd \<Rightarrow> lcd" where
  "set_line line s =
     (let reg = LCD_COLOR_CMD_UPDATE;
          s = pin_set LCD_CS s;
          s = Write_Data reg s;
          s = Write_Data (line + 1) s;
          s = fold (\<lambda>i. Write_Data 0xcc) [0..<44] s;
          s = fold (\<lambda>i. Write_Data 0x33) [0..<44] s;
          s = Write_Data 0x0 s;
          s = Write_Data 0x0 s
      in pin_clr LCD_CS s)"

text \<open>
  \<open>lcd_init\<close> panics when the GPIO device is missing; the prints are the history. The loop after
  the lines leaves at its first \<open>break\<close>.
\<close>

definition lcd_init :: "platform \<Rightarrow> lcd \<Rightarrow> history \<Rightarrow> lcd outcome \<times> history" where
  "lcd_init P s h =
     (let (dev, h) = mdx_device_lookup_by_name P ''nrf_gpio'' 0 h
      in if \<not> dev then panic ''gpio dev not found'' [] h
      else let s = mdx_gpio (Gpio_configure LCD_EXTMODE) s;
               s = mdx_gpio (Gpio_configure LCD_EXTCOMIN) s;
               s = pin_set LCD_EXTMODE s;
               s = pin_set LCD_EXTCOMIN s;
               s = mdx_gpio (Gpio_configure LCD_CS) s;
               s = mdx_gpio (Gpio_configure LCD_SCK) s;
               s = mdx_gpio (Gpio_configure LCD_MOSI) s;
               s = mdx_gpio (Gpio_configure LCD_DISP) s;
               s = lcd_reset s;
               h = printf ''display initialized'' [] h;
               s = ClearScreen s;
               s = toggle_vcom s;
               s = (if (1 :: int) = 0 then toggle_vcom (invertDisplay s) else s);
               s = fold (\<lambda>i s. toggle_vcom (set_line (of_nat i) s)) [0..<176] s;
               s = setBlinkMode LCD_BLINKMODE_NONE s;
               s = toggle_vcom s;
               s = mdx_usleep2 2000000 s;
               h = printf ''blink'' [] h;
               h = printf ''screen cleared'' [] h
           in (Returned s, h))"

section \<open>The display\<close>

text \<open>
  The levels of the three bus pins as the display sees them, the bits of the frame in progress
  and the frames completed so far.
\<close>

record rx =
  rx_cs :: bool
  rx_sck :: bool
  rx_mosi :: bool
  rx_bits :: "bool list"
  rx_frames :: "u8 list list"

definition byte_of_bits :: "bool list \<Rightarrow> u8" where
  "byte_of_bits bs = horner_sum of_bool 2 (rev bs)"

fun bytes_of_bits :: "bool list \<Rightarrow> u8 list" where
  "bytes_of_bits bs =
     (if length bs < 8 then [] else byte_of_bits (take 8 bs) # bytes_of_bits (drop 8 bs))"

declare bytes_of_bits.simps [simp del]

fun rx_step :: "gpio \<Rightarrow> rx \<Rightarrow> rx" where
  "rx_step (Gpio_configure pin) r = r"
| "rx_step (Delay n) r = r"
| "rx_step (Gpio_set pin v) r =
     (if pin = LCD_CS then
        if v \<and> \<not> rx_cs r then r\<lparr>rx_cs := True, rx_bits := []\<rparr>
        else if \<not> v \<and> rx_cs r then
          r\<lparr>rx_cs := False, rx_frames := rx_frames r @ [bytes_of_bits (rx_bits r)]\<rparr>
        else r
      else if pin = LCD_SCK then
        r\<lparr>rx_sck := v, rx_bits := rx_bits r @ (if v \<and> \<not> rx_sck r \<and> rx_cs r then [rx_mosi r] else [])\<rparr>
      else if pin = LCD_MOSI then r\<lparr>rx_mosi := v\<rparr>
      else r)"

definition byte_bits :: "u8 \<Rightarrow> bool list" where
  "byte_bits b = map (\<lambda>k. bit b (7 - k)) [0..<8]"

lemma byte_of_byte_bits [simp]: "byte_of_bits (byte_bits b) = b"
proof -
  have "rev (byte_bits b) = map (bit b) [0..<8]"
    by (simp add: byte_bits_def upt_rec numeral_eq_Suc)
  then show ?thesis by (simp add: byte_of_bits_def horner_sum_bit_eq_take_bit take_bit_word_eq_self)
qed

lemma length_byte_bits [simp]: "length (byte_bits b) = 8"
  by (simp add: byte_bits_def)

lemma bytes_of_concat [simp]: "bytes_of_bits (concat (map byte_bits bs)) = bs"
  by (induction bs) (simp_all add: bytes_of_bits.simps)

section \<open>What an operation makes the display see\<close>

text \<open>
  \<open>emits f R\<close>: \<open>f\<close> only adds pin operations, and these take the display from a state to an
  \<open>R\<close>-related one. \<open>shifts\<close> and \<open>sends\<close> are the two relations used: bits shifted into the
  current frame, and complete frames received.
\<close>

definition emits :: "(lcd \<Rightarrow> lcd) \<Rightarrow> (rx \<Rightarrow> rx \<Rightarrow> bool) \<Rightarrow> bool" where
  "emits f R \<longleftrightarrow> (\<forall>s. \<exists>evs. pins (f s) = pins s @ evs \<and> (\<forall>r. R r (fold rx_step evs r)))"

definition shifts :: "bool list \<Rightarrow> rx \<Rightarrow> rx \<Rightarrow> bool" where
  "shifts bs r r' \<longleftrightarrow> (rx_cs r \<longrightarrow>
     rx_cs r' \<and> rx_bits r' = rx_bits r @ bs \<and> rx_frames r' = rx_frames r)"

definition sends :: "u8 list list \<Rightarrow> rx \<Rightarrow> rx \<Rightarrow> bool" where
  "sends fs r r' \<longleftrightarrow> (\<not> rx_cs r \<longrightarrow> \<not> rx_cs r' \<and> rx_frames r' = rx_frames r @ fs)"

lemma emits_comp:
  assumes "emits f R" and "emits g S" and "\<And>x y z. R x y \<Longrightarrow> S y z \<Longrightarrow> T x z"
  shows "emits (\<lambda>s. g (f s)) T"
  unfolding emits_def
proof
  fix s
  from assms(1) obtain evs where "pins (f s) = pins s @ evs" "\<forall>r. R r (fold rx_step evs r)"
    unfolding emits_def by blast
  moreover from assms(2) obtain evs' where "pins (g (f s)) = pins (f s) @ evs'" "\<forall>r. S r (fold rx_step evs' r)"
    unfolding emits_def by blast
  moreover from calculation have "T r (fold rx_step evs' (fold rx_step evs r))" for r
    by (intro assms(3)) blast+
  ultimately show "\<exists>evs. pins (g (f s)) = pins s @ evs \<and> (\<forall>r. T r (fold rx_step evs r))"
    by (intro exI [of _ "evs @ evs'"]) simp
qed

lemma emits_shifts_comp:
  "emits f (shifts bs) \<Longrightarrow> emits g (shifts bs') \<Longrightarrow> emits (\<lambda>s. g (f s)) (shifts (bs @ bs'))"
  by (erule (1) emits_comp) (auto simp: shifts_def)

lemma emits_sends_comp:
  "emits f (sends fs) \<Longrightarrow> emits g (sends fs') \<Longrightarrow> emits (\<lambda>s. g (f s)) (sends (fs @ fs'))"
  by (erule (1) emits_comp) (auto simp: sends_def)

lemma emits_events:
  "(\<And>s. pins (f s) = pins s @ evs) \<Longrightarrow> (\<And>r. R r (fold rx_step evs r)) \<Longrightarrow> emits f R"
  by (auto simp: emits_def)

lemma one_bit:
  "emits (\<lambda>s. pin_set LCD_SCK (if b then pin_set LCD_MOSI (pin_clr LCD_SCK s) else pin_clr LCD_MOSI (pin_clr LCD_SCK s)))
     (shifts [b])"
  by (rule emits_events [where evs = "[Gpio_set LCD_SCK False, Gpio_set LCD_MOSI b, Gpio_set LCD_SCK True]"])
    (auto simp: pin_set_def pin_clr_def mdx_gpio_def shifts_def pin_defs)

lemma top_bit: "(dh :: u8) AND 0x80 \<noteq> 0 \<longleftrightarrow> bit dh 7"
  using and_exp_eq_0_iff_not_bit [of dh 7] by simp

lemma write_bits_shifts:
  "n \<le> 8 \<Longrightarrow> emits (write_bits n dh) (shifts (map (\<lambda>k. bit dh (7 - k)) [0..<n]))"
proof (induction n arbitrary: dh)
  case 0
  then show ?case by (intro emits_events [where evs = "[]"]) (simp_all add: shifts_def)
next
  case (Suc n)
  have tail: "map (\<lambda>k. bit (push_bit 1 dh) (7 - k)) [0..<n] = map (\<lambda>k. bit dh (7 - Suc k)) [0..<n]"
  proof (rule map_cong [OF refl])
    fix k assume "k \<in> set [0..<n]"
    with Suc.prems have "bit (push_bit 1 dh) (7 - k) \<longleftrightarrow> bit dh (7 - k - 1)"
      by (simp only: bit_push_bit_iff) auto
    then show "bit (push_bit 1 dh) (7 - k) = bit dh (7 - Suc k)" by simp
  qed
  have "emits (\<lambda>s. write_bits n (push_bit 1 dh) (pin_set LCD_SCK (if bit dh 7
      then pin_set LCD_MOSI (pin_clr LCD_SCK s) else pin_clr LCD_MOSI (pin_clr LCD_SCK s))))
      (shifts ([bit dh 7] @ map (\<lambda>k. bit dh (7 - Suc k)) [0..<n]))"
    using Suc.IH [of "push_bit 1 dh", unfolded tail] Suc.prems
    by (intro emits_shifts_comp [OF one_bit]) (simp only: Suc_leD)
  moreover have "[bit dh 7] @ map (\<lambda>k. bit dh (7 - Suc k)) [0..<n] = map (\<lambda>k. bit dh (7 - k)) [0..<Suc n]"
    by (simp only: upt_conv_Cons [OF zero_less_Suc] map_Suc_upt [symmetric] list.map comp_def map_map) simp
  ultimately show ?case by (simp add: top_bit Let_def del: upt_Suc)
qed

lemma Write_Data_shifts: "emits (Write_Data b) (shifts (byte_bits b))"
proof -
  have "emits (pin_clr LCD_SCK) (shifts [])"
    by (rule emits_events [where evs = "[Gpio_set LCD_SCK False]"])
      (auto simp: pin_clr_def mdx_gpio_def shifts_def pin_defs)
  from emits_shifts_comp [OF write_bits_shifts [of 8 b] this] show ?thesis
    by (simp add: Write_Data_def [abs_def] byte_bits_def)
qed

text \<open>A sequence of bytes, and a sequence of bytes framed by the select pin.\<close>

definition write_all :: "u8 list \<Rightarrow> lcd \<Rightarrow> lcd" where
  "write_all bs = fold Write_Data bs"

lemma write_all_shifts: "emits (write_all bs) (shifts (concat (map byte_bits bs)))"
proof (induction bs)
  case Nil
  then show ?case by (intro emits_events [where evs = "[]"]) (simp_all add: write_all_def shifts_def)
next
  case (Cons b bs)
  with emits_shifts_comp [OF Write_Data_shifts this] show ?case
    by (simp add: write_all_def comp_def)
qed

lemma frame_sends: "emits (\<lambda>s. pin_clr LCD_CS (write_all bs (pin_set LCD_CS s))) (sends [bs])"
proof -
  have set_cs: "emits (pin_set LCD_CS) (\<lambda>r r'. \<not> rx_cs r \<longrightarrow> rx_cs r' \<and> rx_bits r' = [] \<and> rx_frames r' = rx_frames r)"
    by (rule emits_events [where evs = "[Gpio_set LCD_CS True]"]) (auto simp: pin_set_def mdx_gpio_def pin_defs)
  have clr_cs: "emits (pin_clr LCD_CS) (\<lambda>r r'. rx_cs r \<longrightarrow> \<not> rx_cs r' \<and>
      rx_frames r' = rx_frames r @ [bytes_of_bits (rx_bits r)])"
    by (rule emits_events [where evs = "[Gpio_set LCD_CS False]"]) (auto simp: pin_clr_def mdx_gpio_def pin_defs)
  have "emits (\<lambda>s. write_all bs (pin_set LCD_CS s)) (\<lambda>r r'. \<not> rx_cs r \<longrightarrow>
      rx_cs r' \<and> rx_bits r' = concat (map byte_bits bs) \<and> rx_frames r' = rx_frames r)"
    by (rule emits_comp [OF set_cs write_all_shifts]) (auto simp: shifts_def)
  then show ?thesis by (rule emits_comp [OF _ clr_cs]) (auto simp: sends_def)
qed

section \<open>The commands as frames\<close>

text \<open>
  The interface of a family of display commands: each call sends one frame with a payload that
  depends on its argument only. A run of calls then sends the payloads in order.
\<close>

locale frame_sender =
  fixes send :: "'a \<Rightarrow> lcd \<Rightarrow> lcd" and payload :: "'a \<Rightarrow> u8 list"
  assumes send_frame: "emits (send x) (sends [payload x])"
begin

lemma send_all: "emits (fold send xs) (sends (map payload xs))"
proof (induction xs)
  case Nil
  then show ?case by (intro emits_events [where evs = "[]"]) (simp_all add: sends_def)
next
  case (Cons x xs)
  from emits_sends_comp [OF send_frame Cons] show ?case by (simp add: comp_def)
qed

end

definition line_frame :: "u8 \<Rightarrow> u8 list" where
  "line_frame line = [0x90, line + 1] @ replicate 44 0xcc @ replicate 44 0x33 @ [0, 0]"

lemma fold_Write_Data: "fold (\<lambda>i. Write_Data b) xs = write_all (replicate (length xs) b)"
  by (induction xs) (simp_all add: write_all_def)

lemma set_line_frame: "set_line line = (\<lambda>s. pin_clr LCD_CS (write_all (line_frame line) (pin_set LCD_CS s)))"
  by (rule ext) (simp add: set_line_def line_frame_def fold_Write_Data Let_def LCD_COLOR_CMD_UPDATE_def write_all_def
      del: replicate.simps)

lemma ClearScreen_frame: "ClearScreen = (\<lambda>s. pin_clr LCD_CS (write_all [0x20, 0] (pin_set LCD_CS s)))"
  by (rule ext) (simp add: ClearScreen_def Let_def JDI_CMD_ALL_CLEAR_def write_all_def)

lemma invertDisplay_frame: "invertDisplay = (\<lambda>s. pin_clr LCD_CS (write_all [0x14, 0] (pin_set LCD_CS s)))"
  by (rule ext) (simp add: invertDisplay_def Let_def JDI_CMD_INVERSION_def write_all_def)

lemma setBlinkMode_frame: "setBlinkMode m = (\<lambda>s. pin_clr LCD_CS (write_all [blink_cmd m, 0] (pin_set LCD_CS s)))"
  by (rule ext) (simp add: setBlinkMode_def Let_def write_all_def)

lemma toggle_vcom_silent: "emits toggle_vcom (sends [])"
proof -
  have "\<exists>evs. pins (toggle_vcom s) = pins s @ evs \<and> (\<forall>r. sends [] r (fold rx_step evs r))" for s
    by (intro exI [of _ "[Gpio_set LCD_EXTCOMIN (vcom s = 0)]"])
      (simp add: toggle_vcom_def pin_set_def pin_clr_def mdx_gpio_def sends_def pin_defs)
  then show ?thesis by (simp add: emits_def)
qed

lemma delay_silent: "emits (mdx_usleep2 n) (sends [])"
  by (rule emits_events [where evs = "[Delay (nat n)]"]) (simp_all add: mdx_usleep2_delay mdx_gpio_def sends_def)

interpretation lines: frame_sender "\<lambda>i s. toggle_vcom (set_line (of_nat i) s)" "\<lambda>i. line_frame (of_nat i)"
proof unfold_locales
  fix x :: nat
  show "emits (\<lambda>s. toggle_vcom (set_line (of_nat x) s)) (sends [line_frame (of_nat x)])"
    using emits_sends_comp [OF frame_sends toggle_vcom_silent] by (simp add: set_line_frame)
qed

interpretation blink: frame_sender setBlinkMode "\<lambda>m. [blink_cmd m, 0]"
  by unfold_locales (simp add: setBlinkMode_frame frame_sends)

text \<open>The driver's preparation of the pins selects nothing and sends nothing.\<close>

definition prepare :: "lcd \<Rightarrow> lcd" where
  "prepare s = lcd_reset (mdx_gpio (Gpio_configure LCD_DISP) (mdx_gpio (Gpio_configure LCD_MOSI)
     (mdx_gpio (Gpio_configure LCD_SCK) (mdx_gpio (Gpio_configure LCD_CS) (pin_set LCD_EXTCOMIN
       (pin_set LCD_EXTMODE (mdx_gpio (Gpio_configure LCD_EXTCOMIN)
         (mdx_gpio (Gpio_configure LCD_EXTMODE) s))))))))"

lemma prepare_silent: "emits prepare (sends [])"
  by (rule emits_events [where evs = "[Gpio_configure LCD_EXTMODE, Gpio_configure LCD_EXTCOMIN,
      Gpio_set LCD_EXTMODE True, Gpio_set LCD_EXTCOMIN True, Gpio_configure LCD_CS, Gpio_configure LCD_SCK,
      Gpio_configure LCD_MOSI, Gpio_configure LCD_DISP, Gpio_set LCD_CS False, Gpio_set LCD_DISP False,
      Delay 10000, Gpio_set LCD_DISP True, Delay 120000]"])
    (simp_all add: prepare_def mdx_usleep2_delay lcd_reset_def pin_set_def pin_clr_def mdx_gpio_def sends_def Let_def pin_defs)

definition screen :: "lcd \<Rightarrow> lcd" where
  "screen s = mdx_usleep2 2000000 (toggle_vcom (setBlinkMode 0
     (fold (\<lambda>i s. toggle_vcom (set_line (of_nat i) s)) [0..<176] (toggle_vcom (ClearScreen (prepare s))))))"

lemma screen_sends:
  "emits screen (sends ([0x20, 0] # map (\<lambda>i. line_frame (of_nat i)) [0..<176] @ [[0, 0]]))"
proof -
  have "emits (\<lambda>s. ClearScreen (prepare s)) (sends [[0x20, 0]])"
    using emits_sends_comp [OF prepare_silent frame_sends] by (simp add: ClearScreen_frame)
  from emits_sends_comp [OF emits_sends_comp [OF this toggle_vcom_silent] lines.send_all [of "[0..<176]"]]
  have "emits (\<lambda>s. fold (\<lambda>i s. toggle_vcom (set_line (of_nat i) s)) [0..<176] (toggle_vcom (ClearScreen (prepare s))))
      (sends ([0x20, 0] # map (\<lambda>i. line_frame (of_nat i)) [0..<176]))" by (simp del: upt_rec)
  from emits_sends_comp [OF emits_sends_comp [OF emits_sends_comp [OF this blink.send_frame [of 0]]
      toggle_vcom_silent] delay_silent [of 2000000]]
  show ?thesis by (simp add: screen_def [abs_def] blink_cmd_def LCD_COLOR_CMD_NO_UPDATE_def)
qed

lemma lcd_init_screen:
  "lcd_init P s h = (if device_found P h ''nrf_gpio'' 0
     then (Returned (screen s), h @ [Lookup ''nrf_gpio'' 0 True, Printf ''display initialized'' [],
       Printf ''blink'' [], Printf ''screen cleared'' []])
     else (Panicked, h @ [Lookup ''nrf_gpio'' 0 False, Panic ''gpio dev not found'' []]))"
  by (simp add: lcd_init_def screen_def prepare_def run_simps Let_def)

section \<open>Properties\<close>

text \<open>
  C21: a display that samples the data pin on rising clock edges receives each byte that
  \<open>Write_Data\<close> sends, most significant bit first, whatever the pin levels were before, and a
  sequence of bytes written while the display is selected arrives as one frame of these bytes.
\<close>

theorem write_frame_roundtrip:
  assumes "\<not> rx_cs r"
  shows "\<exists>evs. pins (pin_clr LCD_CS (fold Write_Data bs (pin_set LCD_CS s))) = pins s @ evs \<and>
    rx_frames (fold rx_step evs r) = rx_frames r @ [bs] \<and> \<not> rx_cs (fold rx_step evs r)"
proof -
  from frame_sends [of bs] obtain evs where
    "pins (pin_clr LCD_CS (write_all bs (pin_set LCD_CS s))) = pins s @ evs"
    "\<forall>r. sends [bs] r (fold rx_step evs r)" unfolding emits_def by blast
  with assms show ?thesis by (auto simp: write_all_def sends_def)
qed

definition rx_idle :: rx where
  "rx_idle = \<lparr>rx_cs = False, rx_sck = False, rx_mosi = False, rx_bits = [], rx_frames = []\<rparr>"

theorem write_frame_roundtrip_witness:
  "\<exists>evs. pins (pin_clr LCD_CS (fold Write_Data [0xa5, 0x5a] (pin_set LCD_CS \<lparr>vcom = 0, pins = []\<rparr>))) = evs \<and>
     rx_frames (fold rx_step evs rx_idle) = [[0xa5, 0x5a]]"
  using write_frame_roundtrip [of rx_idle "[0xa5, 0x5a]" "\<lparr>vcom = 0, pins = []\<rparr>"]
  by (auto simp: rx_idle_def)

text \<open>
  C22: when the GPIO device exists, \<open>lcd_init\<close> makes the display receive exactly a clear command,
  then one update frame of 92 bytes for each of the lines 1 to 176 in order, and a final no-update
  frame; without the device it panics and touches no pin.
\<close>

theorem lcd_init_frames:
  assumes "\<not> rx_cs r"
  shows "if device_found P h ''nrf_gpio'' 0
    then \<exists>s' evs. fst (lcd_init P s h) = Returned s' \<and> pins s' = pins s @ evs \<and>
      rx_frames (fold rx_step evs r) = rx_frames r @ [0x20, 0] #
        map (\<lambda>n. [0x90, of_nat n] @ replicate 44 0xcc @ replicate 44 0x33 @ [0, 0]) [1..<177] @ [[0, 0]]
    else fst (lcd_init P s h) = Panicked"
proof -
  from screen_sends obtain evs where evs: "pins (screen s) = pins s @ evs"
    "\<forall>r. sends ([0x20, 0] # map (\<lambda>i. line_frame (of_nat i)) [0..<176] @ [[0, 0]]) r (fold rx_step evs r)"
    unfolding emits_def by blast
  moreover have "[1..<177] = map Suc [0..<176]" using map_Suc_upt [of 0 176] by simp
  then have "map (\<lambda>i. line_frame (of_nat i)) [0..<176] =
      map (\<lambda>n. [0x90, of_nat n] @ replicate 44 0xcc @ replicate 44 0x33 @ [0, 0]) [1..<177]"
    by (simp only: map_map comp_def line_frame_def of_nat_Suc add.commute [of 1])
  ultimately show ?thesis using assms by (auto simp: lcd_init_screen sends_def)
qed

theorem lcd_init_frames_witness:
  "\<exists>s' evs. fst (lcd_init all_ok \<lparr>vcom = 0, pins = []\<rparr> []) = Returned s' \<and> pins s' = evs \<and>
     length (rx_frames (fold rx_step evs rx_idle)) = 178"
  using lcd_init_frames [of rx_idle all_ok "[]" "\<lparr>vcom = 0, pins = []\<rparr>"]
  by (auto simp: rx_idle_def all_ok_def)

section \<open>The common electrode\<close>

text \<open>
  The driver alternates the EXTCOMIN pin and remembers the level in \<open>vcom\<close>; no other command
  may move either.
\<close>

fun level :: "nat \<Rightarrow> gpio list \<Rightarrow> bool option" where
  "level pin [] = None"
| "level pin (e # es) = (case level pin es of Some v \<Rightarrow> Some v | None \<Rightarrow>
     (case e of Gpio_set p v \<Rightarrow> if p = pin then Some v else None | _ \<Rightarrow> None))"

lemma level_append: "level pin (es @ es') = (case level pin es' of Some v \<Rightarrow> Some v | None \<Rightarrow> level pin es)"
  by (induction es) (auto split: option.splits)

definition quiet :: "(lcd \<Rightarrow> lcd) \<Rightarrow> bool" where
  "quiet f \<longleftrightarrow> (\<forall>s. vcom (f s) = vcom s \<and> level LCD_EXTCOMIN (pins (f s)) = level LCD_EXTCOMIN (pins s))"

lemma quiet_comp: "quiet f \<Longrightarrow> quiet g \<Longrightarrow> quiet (\<lambda>s. g (f s))"
  by (simp add: quiet_def)

lemma quiet_pin: "pin \<noteq> LCD_EXTCOMIN \<Longrightarrow> quiet (pin_set pin)" "pin \<noteq> LCD_EXTCOMIN \<Longrightarrow> quiet (pin_clr pin)"
  by (auto simp: quiet_def pin_set_def pin_clr_def mdx_gpio_def level_append)

lemma quiet_write_bits: "quiet (write_bits n dh)"
proof (induction n arbitrary: dh)
  case 0
  then show ?case by (simp add: quiet_def)
next
  case (Suc n)
  then show ?case
    by (auto simp: quiet_def pin_set_def pin_clr_def mdx_gpio_def level_append pin_defs Let_def)
qed

lemma quiet_write_all: "quiet (write_all bs)"
proof (induction bs)
  case Nil
  then show ?case by (simp add: write_all_def quiet_def)
next
  case (Cons b bs)
  have "quiet (Write_Data b)"
    using quiet_comp [OF quiet_write_bits quiet_pin(2)] by (simp add: Write_Data_def [abs_def] pin_defs)
  from quiet_comp [OF this Cons] show ?case by (simp add: write_all_def comp_def)
qed

lemma quiet_frame: "quiet (\<lambda>s. pin_clr LCD_CS (write_all bs (pin_set LCD_CS s)))"
  by (intro quiet_comp [OF quiet_comp [OF quiet_pin(1) quiet_write_all] quiet_pin(2)]) (simp_all add: pin_defs)

datatype lcd_op = Op_toggle | Op_clear | Op_invert | Op_blink u8 | Op_line u8

fun lcd_step :: "lcd_op \<Rightarrow> lcd \<Rightarrow> lcd" where
  "lcd_step Op_toggle s = toggle_vcom s"
| "lcd_step Op_clear s = ClearScreen s"
| "lcd_step Op_invert s = invertDisplay s"
| "lcd_step (Op_blink m) s = setBlinkMode m s"
| "lcd_step (Op_line l) s = set_line l s"

definition vcom_inv :: "lcd \<Rightarrow> bool" where
  "vcom_inv s \<longleftrightarrow> (vcom s = 0 \<or> vcom s = 1) \<and> level LCD_EXTCOMIN (pins s) = Some (vcom s = 1)"

lemma toggle_vcom_inv: "vcom_inv (toggle_vcom s)"
  by (simp add: vcom_inv_def toggle_vcom_def pin_set_def pin_clr_def mdx_gpio_def level_append)

lemma quiet_vcom_inv: "quiet f \<Longrightarrow> vcom_inv s \<Longrightarrow> vcom_inv (f s)"
  by (simp add: quiet_def vcom_inv_def)

interpretation electrode: invariant_machine lcd_step vcom_inv
proof unfold_locales
  fix s op assume "vcom_inv s"
  then show "vcom_inv (lcd_step op s)"
    using quiet_vcom_inv [OF quiet_frame] by (cases op)
      (simp_all add: toggle_vcom_inv ClearScreen_frame invertDisplay_frame setBlinkMode_frame set_line_frame)
qed

lemma fold_vcom:
  assumes "vcom s = 0 \<or> vcom s = 1"
  shows "vcom (fold lcd_step ops s) = (if even (length (filter (\<lambda>op. op = Op_toggle) ops)) then vcom s else 1 - vcom s)"
  using assms
proof (induction ops arbitrary: s)
  case Nil
  then show ?case by simp
next
  case (Cons op ops)
  have quiet: "vcom (lcd_step op s) = vcom s" if "op \<noteq> Op_toggle"
    using quiet_frame that by (cases op)
      (auto simp: quiet_def ClearScreen_frame invertDisplay_frame setBlinkMode_frame set_line_frame)
  show ?case
  proof (cases "op = Op_toggle")
    case True
    then have "vcom (lcd_step op s) = 1 - vcom s" using Cons.prems
      by (auto simp: toggle_vcom_def)
    with True Cons.IH [of "lcd_step op s"] Cons.prems show ?thesis by auto
  qed (use quiet Cons in auto)
qed

text \<open>
  After the first toggle, for every sequence of display commands, the \<open>vcom\<close> flag equals the
  level of the EXTCOMIN pin, no command other than the toggle moves either, and each toggle inverts
  both.
\<close>

lemma vcom_follows_pin:
  "let s' = fold lcd_step ops (toggle_vcom s) in
     level LCD_EXTCOMIN (pins s') = Some (vcom s' = 1) \<and>
     vcom s' = (if even (length (filter (\<lambda>op. op = Op_toggle) ops)) then vcom (toggle_vcom s) else 1 - vcom (toggle_vcom s))"
  using electrode.run_inv [OF toggle_vcom_inv] fold_vcom [of "toggle_vcom s" ops] toggle_vcom_inv [of s]
  by (auto simp: Let_def vcom_inv_def)

end
