(* ===== verification/Spec2Isabelle.thy ===== *)
theory Spec2Isabelle
  imports Handles Preemption Wakeup Main_App Fpu Image Lcd
begin

text \<open>
  \<^bold>\<open>The program.\<close> An application for the Nordic nRF9160 (an Arm Cortex-M33 with an LTE/GNSS modem on a
  second core) on the MDEPX real-time kernel. It brings up the modem library, connects to an LTE
  network with AT commands, fetches the time by NTP, makes a TCP and an HTTP transfer, runs a
  factorisation self test, and switches the modem to GNSS positioning. The kernel, the modem
  library, the HTTP library and the Wi-Fi library are not part of the repository.

  \<^bold>\<open>The boundary.\<close> Code outside the repository is a parameter. In the application part a call across
  the boundary is an \<open>event\<close>, a run is the list of its events (\<open>history\<close>), and the record
  \<open>platform\<close> gives every answer as a function of the history so far; theorems quantify over all
  platforms. In the modem OS layer the kernel services are the record \<open>os_api\<close>. The allocator is
  \<open>fl_ops\<close>, the GNSS part of the modem library \<open>gnss_lib\<close>. What the code relies on is stated as
  hypotheses or as the assumptions of a locale, and each property that has them comes with a
  concrete instance.

  \<^bold>\<open>The theories.\<close>
  \<^item> \<open>Prelude\<close>: machine integers, byte order, chains of next pointers, the locale
    \<open>invariant_machine\<close>.
  \<^item> \<open>Platform\<close>: events, histories, the platform, rules that step through code for every answer
    of the platform (\<open>post\<close>), and views of a run: what an operation adds to the history as seen by a
    function on events, with the locale \<open>event_view\<close> for the views that ignore output and delays.
  \<^item> \<open>CStrings\<close>: \<open>strsep\<close>, \<open>strncpy\<close>, \<open>atoi\<close> with overruns, null pointers and \<open>int\<close> overflows as errors,
    related to the comma-separated fields of a string.
  \<^item> \<open>Float32\<close>: single-precision numbers and rounding, on integers.
  \<^item> \<open>Modem_OS\<close>, \<open>Waiters\<close>, \<open>Ring\<close>, \<open>Pools\<close>, \<open>Layer\<close>, \<open>OS_Properties\<close>, \<open>Handles\<close>
    (\<^verbatim>\<open>src/src/nrf_modem.c\<close>): the list of sleeping threads, notification, shutdown, timed waits, the semaphore and mutex pools, sleeping.
    \<open>Waiters\<close> states the list interface as the locale \<open>entry_list\<close> and proves that the layer
    simulates a queue of waiters with wake-up counts; \<open>Ring\<close> interprets it on a doubly linked ring;
    \<open>Pools\<close> treats both pools through the locale \<open>handle_pool\<close>; \<open>Handles\<close> extends it
    (\<open>separate_pool\<close>) and types the handle variables of a client of both pools. \<open>Layer\<close> puts all
    operations into one transition system of calling threads with a ledger of waiters, semaphore tokens and
    mutex holders, over the contract \<open>kernel_sync\<close> of the kernel's semaphores and mutexes. A step is a call
    that returns: the kernel call the code makes says when it leaves its caller waiting.
  \<^item> \<open>Preemption\<close> (\<^verbatim>\<open>src/src/nrf_modem.c\<close>): the loop of \<open>nrf_modem_os_event_notify\<close> one step at a time
    (\<open>walk\<close>, equal to the loop when undisturbed), interleaved with threads that enter and leave the list
    (\<open>walk_step\<close>).
  \<^item> \<open>Sockets\<close>: the life cycle of a modem socket and the locale \<open>socket_client\<close>, interpreted for the
    NTP and the TCP client.
  \<^item> \<open>Ntp\<close> (\<^verbatim>\<open>src/src/ntp.c\<close>): message layout, query, reply, time conversion.
  \<^item> \<open>Http\<close> (\<^verbatim>\<open>src/src/http.c\<close>): the callbacks of the HTTP library, for every finite sequence of callbacks, that
    is for every run of the library that ends.
  \<^item> \<open>Lte\<close>, \<open>Lte_Properties\<close>, \<open>Connection\<close> (\<^verbatim>\<open>src/src/main.c\<close>): AT commands, waiting for registration,
    response decoding, the TCP test, the connection sequence, the console. \<open>Connection\<close> has the
    properties of the whole sequence: its steps as seen by a view that ignores network traffic or AT
    commands (locales \<open>app_view\<close>, \<open>client_view\<close>, \<open>connection_view\<close>), interpreted for AT commands, for
    sockets and for GNSS calls, and in \<open>Main_App\<close> for the memory regions handed over. It also has the text of every AT command as the modem receives it.
  \<^item> \<open>Math64\<close> (\<^verbatim>\<open>src/src/math.c\<close>): Pollard's rho factorisation on 64-bit words.
  \<^item> \<open>Gps\<close>, \<open>Fpu\<close> (\<^verbatim>\<open>src/src/gps.c\<close>): GNSS start-up and event handler; the floating-point test.
  \<^item> \<open>Ipc\<close>, \<open>Ipc_Machine\<close> (\<^verbatim>\<open>src/src/nrfx_ipc.c\<close>, \<^verbatim>\<open>src/src/nrfx_errors.h\<close>): interprocessor interrupts,
    the operations and the state machine they form with interrupts and callbacks.
  \<^item> \<open>Wakeup\<close>: one interrupt from \<open>ipc_intr\<close> through the handlers and the modem library, a parameter, to
    the notified threads.
  \<^item> \<open>Board\<close> (\<^verbatim>\<open>src/src/board.c\<close>, the memory layout of \<^verbatim>\<open>src/src/main.c\<close>, the memory wrappers of
    \<^verbatim>\<open>src/src/nrf_modem.c\<close>): board start-up, shared memory, the contract of the kernel's free-list allocator
    as the locale \<open>fl_allocator\<close>.
  \<^item> \<open>Image\<close> (\<^verbatim>\<open>src/src/ldscript\<close>, \<^verbatim>\<open>src/src/jump.S\<close>, \<^verbatim>\<open>src/Makefile\<close>): the memory map, the sections of a
    linked image for any sizes of its inputs, the flash pages programmed, the branches into the boot loader.
  \<^item> \<open>Lcd\<close> (\<^verbatim>\<open>src/src/lcd.c\<close>): the bit-banged display and a model of the receiving display.
  \<^item> \<open>Wifi\<close> (\<^verbatim>\<open>src/src/wifi/nrf_wifi.c\<close>, \<^verbatim>\<open>src/src/dect.c\<close>): the Wi-Fi shim with its operation table and
    calls through it, and the DECT test.
  \<^item> \<open>Main_App\<close> (\<^verbatim>\<open>src/src/main.c\<close>): \<open>main\<close> up to its idle loop.

  \<^bold>\<open>What is shown.\<close> For the OS layer: under every interleaving of all its calls the list of sleeping
  threads refines a queue and the semaphores hold the tokens the ledger says, mutexes exclude exactly when no
  lock can time out, no wake-up is lost, shutdown wakes everybody, pools hand
  out distinct objects, and well-typed clients of the pools never pass a bad pointer. A notification that is interrupted between its steps still
  reaches every thread that stays if the thread it looks at stays, and can miss all others if not; an
  interrupt wakes the threads whose contexts the modem library notifies. For the
  network clients: sockets are used in order on every path, the NTP time is right, and which paths
  leave a socket open, also counted over a connection cycle. For the LTE part: by which reports of the modem
  the wait for registration ends, the exact text and order of the AT commands, decoders against their field-wise specification and print/parse round trips, a console
  buffer that cannot overflow. For the factorisation: the modular arithmetic and the search are the
  mathematical ones, every returned pair multiplies to the input, the search stays within 13 rounds
  and its counters within \<open>int\<close>, and where it leaves defined behaviour. For the floating-point test:
  the exact sums. For the interrupt layer: exactly the pending channels are served, and once a handler
  is installed a sequence of steps can only fault where the device is not found. For the Wi-Fi table: which
  sequences of calls return, and with which results and memory. For the display: every
  byte arrives, and the frames of the start-up are the intended ones. For the board: every image the linker accepts keeps clear of them and, up to a stated size, of the
  device tree and on erased pages. The last section joins board, image and application: no byte of RAM has two owners.

  \<^bold>\<open>Loops.\<close> The traversals of the waiter list and the wait for registration are
  \<open>partial_function (option)\<close>; termination of the traversals is proved from the list invariant, and
  the wait ends exactly when the modem reports a final status, or none at the first poll with an indeterminate
  variable that happens to hold one. Blocking calls of the modem library, and the run of the HTTP library, are taken to
  end. The endless loops of the
  floating-point test are observed for any number of passes. All other loops are total functions; the
  rounds of the factorisation are bounded by the shift that leaves the range of \<open>int\<close> in round 14.
  No definition uses fuel.

  \<^bold>\<open>Not modelled.\<close> The counter of a kernel semaphore is taken not to overflow. Output is recorded as format strings and arguments and not rendered. Message texts
  omit the function-name prefix and the newline. Code that the preprocessor removes (\<^verbatim>\<open>#if 0\<close>, the
  early console of the board, debug output) is left out, except that the removed entries of the Wi-Fi
  table are listed. The configuration headers (\<^verbatim>\<open>src/src/mbedtls_config.h\<close>,
  \<^verbatim>\<open>src/src/wifi/config.h\<close>), which are switches and constants of libraries outside the repository, the
  constants and AT command strings that nothing uses, the image conversion tool (vendored option parsing) and
  the rest of the build files hold no logic of the firmware. Preemption inside an operation is modelled where the operation blocks (the timed
  wait) and between the steps of a notification, whose loop shutdown shares; the other changes of the list
  are made in critical sections, and the two threads of the floating-point test share no state.
\<close>

section \<open>Start-up\<close>



end
